theory Spec2Isabelle
  imports
    Main
    "HOL-Library.Char_ord"
    "HOL-Library.List_Lexorder"
    "HOL-Library.Sublist"
    "HOL-Library.Word"
begin

section \<open>Strings\<close>

text \<open>
  Go strings are byte sequences; they are modelled as \<^typ>\<open>string\<close>, one \<^typ>\<open>char\<close> per
  byte. \<open>strings.ToLower\<close> and \<open>strings.TrimSpace\<close> are written out as they act on ASCII
  text (every byte below 128): \<open>ToLower\<close> maps \<open>A\<close>..\<open>Z\<close> to \<open>a\<close>..\<open>z\<close>, \<open>TrimSpace\<close>
  removes the six ASCII white-space bytes from both ends. On other text the library also
  folds the upper-case letters and trims the white space of Unicode, and replaces bytes
  that are not valid UTF-8; so what is proved with these two functions about arbitrary
  text is stated for ASCII text, and the crawler, which applies them to text from the web,
  takes the library's functions from its environment instead.
\<close>

definition isASCII :: "string \<Rightarrow> bool" where
  "isASCII s = list_all (\<lambda>c. c < CHR 0x80) s"

definition ToLowerChar :: "char \<Rightarrow> char" where
  "ToLowerChar c =
     (if CHR ''A'' \<le> c \<and> c \<le> CHR ''Z''
      then (case c of Char b0 b1 b2 b3 b4 b5 b6 b7 \<Rightarrow> Char b0 b1 b2 b3 b4 True b6 b7)
      else c)"

definition ToLower :: "string \<Rightarrow> string" where
  "ToLower s = map ToLowerChar s"

definition isSpace :: "char \<Rightarrow> bool" where
  "isSpace c = (c \<in> set [CHR 0x09, CHR 0x0A, CHR 0x0B, CHR 0x0C, CHR 0x0D, CHR 0x20])"

definition TrimSpace :: "string \<Rightarrow> string" where
  "TrimSpace s = rev (dropWhile isSpace (rev (dropWhile isSpace s)))"

definition HasPrefix :: "string \<Rightarrow> string \<Rightarrow> bool" where
  "HasPrefix s p = (take (length p) s = p)"

definition HasSuffix :: "string \<Rightarrow> string \<Rightarrow> bool" where
  "HasSuffix s p = (length p \<le> length s \<and> drop (length s - length p) s = p)"

definition TrimSuffix :: "string \<Rightarrow> string \<Rightarrow> string" where
  "TrimSuffix s p = (if HasSuffix s p then take (length s - length p) s else s)"

fun Contains :: "string \<Rightarrow> string \<Rightarrow> bool" where
  "Contains [] sub = (sub = [])"
| "Contains (c # cs) sub = (HasPrefix (c # cs) sub \<or> Contains cs sub)"

text \<open>\<open>strings.Split\<close> for a one-byte separator: the pieces between the separators, at
  least one piece.\<close>

fun Split :: "string \<Rightarrow> char \<Rightarrow> string list" where
  "Split [] sep = [[]]"
| "Split (c # cs) sep =
     (if c = sep then [] # Split cs sep
      else (case Split cs sep of [] \<Rightarrow> [[c]] | p # ps \<Rightarrow> (c # p) # ps))"

section \<open>Job Store\<close>

text \<open>
  The job queue of \<open>internal/jobs\<close>. Its whole state lives in the backing store: the job
  records under \<open>JobKeyPrefix + id\<close>, the list \<open>QueueKey\<close> and the set \<open>ActiveJobsKey\<close>.
  A record is stored as the structure itself: encoding a \<open>ScanJob\<close> as JSON does not fail,
  and the text decodes to the same structure. The 24-hour retention of records is not
  modelled.
\<close>

datatype JobStatus =
  StatusQueued | StatusProcessing | StatusCompleted | StatusFailed | StatusCancelled

type_synonym time = int

record ScanJob =
  ID :: string
  URL :: string
  WebhookURL :: string
  CallbackID :: string
  Status :: JobStatus
  CreatedAt :: time
  StartedAt :: "time option"
  CompletedAt :: "time option"
  CrawlTime :: string
  Error :: string
  Emails :: "string list"
  PagesVisited :: int

record AsyncScanRequest =
  req_URL :: string
  req_WebhookURL :: string
  req_CallbackID :: string

record Queue =
  job_records :: "string \<rightharpoonup> ScanJob"
  job_queue :: "string list"
  active_jobs :: "string set"

definition QueueKey :: string where
  "QueueKey = ''crawler:job_queue''"

definition JobKeyPrefix :: string where
  "JobKeyPrefix = ''crawler:job:''"

definition ActiveJobsKey :: string where
  "ActiveJobsKey = ''crawler:active_jobs''"

datatype job_error =
  ErrStoreJob
  | ErrEnqueueJob
  | ErrDequeue
  | ErrDequeueGetJob job_error
  | ErrJobNotFound
  | ErrGetJob
  | ErrUpdateJob
  | ErrCannotCancelProcessing

text \<open>
  A command sent to the backing store can fail. Every operation takes a fault oracle \<open>f\<close>:
  \<open>f k\<close> says that the \<open>k\<close>-th command the operation issues returns an error. The store
  that answers every command is \<open>no_faults\<close>.
\<close>

type_synonym faults = "nat \<Rightarrow> bool"

definition no_faults :: faults where
  "no_faults k = False"

definition GetJob :: "bool \<Rightarrow> string \<Rightarrow> Queue \<Rightarrow> job_error + ScanJob" where
  "GetJob fails jobID q =
     (if fails then Inl ErrGetJob
      else (case job_records q (JobKeyPrefix @ jobID) of
              None \<Rightarrow> Inl ErrJobNotFound
            | Some job \<Rightarrow> Inr job))"

definition UpdateJob :: "bool \<Rightarrow> ScanJob \<Rightarrow> Queue \<Rightarrow> job_error option \<times> Queue" where
  "UpdateJob fails job q =
     (if fails then (Some ErrUpdateJob, q)
      else (None, q\<lparr>job_records := (job_records q)(JobKeyPrefix @ ID job \<mapsto> job)\<rparr>))"

text \<open>\<open>Enqueue\<close>: the identifier drawn by \<open>uuid.New\<close> and the clock reading are arguments.
  A failure of the third command (adding to the active set) is only logged.\<close>

definition Enqueue ::
  "faults \<Rightarrow> string \<Rightarrow> time \<Rightarrow> AsyncScanRequest \<Rightarrow> Queue \<Rightarrow> (job_error + ScanJob) \<times> Queue" where
  "Enqueue f jobID now req q =
     (let job = \<lparr>ID = jobID, URL = req_URL req, WebhookURL = req_WebhookURL req,
                 CallbackID = req_CallbackID req, Status = StatusQueued, CreatedAt = now,
                 StartedAt = None, CompletedAt = None, CrawlTime = [], Error = [],
                 Emails = [], PagesVisited = 0\<rparr>
      in if f 0 then (Inl ErrStoreJob, q)
         else let q1 = q\<lparr>job_records := (job_records q)(JobKeyPrefix @ jobID \<mapsto> job)\<rparr>
              in if f 1 then (Inl ErrEnqueueJob, q1)
                 else let q2 = q1\<lparr>job_queue := jobID # job_queue q1\<rparr>;
                          q3 = (if f 2 then q2
                                else q2\<lparr>active_jobs := insert jobID (active_jobs q2)\<rparr>)
                      in (Inr job, q3))"

text \<open>\<open>Dequeue\<close>: the blocking pop takes the right end of the list (its reply, when
  there is one, is the pair of key and element); an empty list gives "no job" once the
  timeout has passed. A failed status update is only logged, and the job is handed to
  the worker all the same.\<close>

definition Dequeue ::
  "faults \<Rightarrow> time \<Rightarrow> Queue \<Rightarrow> (job_error + ScanJob option) \<times> Queue" where
  "Dequeue f now q =
     (if f 0 then (Inl ErrDequeue, q)
      else (case job_queue q of
              [] \<Rightarrow> (Inr None, q)
            | _ # _ \<Rightarrow>
                (let jobID = last (job_queue q);
                     q1 = q\<lparr>job_queue := butlast (job_queue q)\<rparr>
                 in (case GetJob (f 1) jobID q1 of
                       Inl e \<Rightarrow> (Inl (ErrDequeueGetJob e), q1)
                     | Inr job \<Rightarrow>
                         (let job' = job\<lparr>Status := StatusProcessing, StartedAt := Some now\<rparr>
                          in (Inr (Some job'), snd (UpdateJob (f 2) job' q1)))))))"

text \<open>\<open>CompleteJob\<close> and \<open>FailJob\<close> write through the caller's job handle before they talk
  to the store, so the handle is returned as well. Neither looks at the status the job has.\<close>

definition CompleteJob ::
  "faults \<Rightarrow> time \<Rightarrow> ScanJob \<Rightarrow> string list \<Rightarrow> int \<Rightarrow> string \<Rightarrow> Queue
     \<Rightarrow> job_error option \<times> ScanJob \<times> Queue" where
  "CompleteJob f now job emails pagesVisited crawlTime q =
     (let job' = job\<lparr>Status := StatusCompleted, CompletedAt := Some now, Emails := emails,
                     PagesVisited := pagesVisited, CrawlTime := crawlTime\<rparr>
      in (case UpdateJob (f 0) job' q of
            (Some e, q1) \<Rightarrow> (Some e, job', q1)
          | (None, q1) \<Rightarrow>
              (None, job',
               if f 1 then q1 else q1\<lparr>active_jobs := active_jobs q1 - {ID job'}\<rparr>)))"

definition FailJob ::
  "faults \<Rightarrow> time \<Rightarrow> ScanJob \<Rightarrow> string \<Rightarrow> Queue \<Rightarrow> job_error option \<times> ScanJob \<times> Queue" where
  "FailJob f now job errorMsg q =
     (let job' = job\<lparr>Status := StatusFailed, CompletedAt := Some now, Error := errorMsg\<rparr>
      in (case UpdateJob (f 0) job' q of
            (Some e, q1) \<Rightarrow> (Some e, job', q1)
          | (None, q1) \<Rightarrow>
              (None, job',
               if f 1 then q1 else q1\<lparr>active_jobs := active_jobs q1 - {ID job'}\<rparr>)))"

text \<open>\<open>CancelJob\<close>: the only operation that reads the stored status, and it refuses
  exactly the status \<open>processing\<close>. \<open>LRem\<close> with count 0 removes every occurrence.\<close>

definition CancelJob :: "faults \<Rightarrow> time \<Rightarrow> string \<Rightarrow> Queue \<Rightarrow> job_error option \<times> Queue" where
  "CancelJob f now jobID q =
     (case GetJob (f 0) jobID q of
        Inl e \<Rightarrow> (Some e, q)
      | Inr job \<Rightarrow>
          if Status job = StatusProcessing then (Some ErrCannotCancelProcessing, q)
          else (let job' = job\<lparr>Status := StatusCancelled, CompletedAt := Some now\<rparr>
                in (case UpdateJob (f 1) job' q of
                      (Some e, q1) \<Rightarrow> (Some e, q1)
                    | (None, q1) \<Rightarrow>
                        (let q2 = (if f 2 then q1
                                   else q1\<lparr>job_queue := removeAll jobID (job_queue q1)\<rparr>);
                             q3 = (if f 3 then q2
                                   else q2\<lparr>active_jobs := active_jobs q2 - {jobID}\<rparr>)
                         in (None, q3)))))"

definition GetActiveJobs :: "Queue \<Rightarrow> string set" where
  "GetActiveJobs q = active_jobs q"

definition GetQueueSize :: "Queue \<Rightarrow> int" where
  "GetQueueSize q = int (length (job_queue q))"

text \<open>A store holding one job, once as enqueued and once as handed to a worker.\<close>

definition NewQueue :: Queue where
  "NewQueue = \<lparr>job_records = Map.empty, job_queue = [], active_jobs = {}\<rparr>"

definition example_request :: AsyncScanRequest where
  "example_request =
     \<lparr>req_URL = ''https://example.com'', req_WebhookURL = ''https://hook.example/cb'',
      req_CallbackID = ''cb-1''\<rparr>"

definition example_queued :: Queue where
  "example_queued = snd (Enqueue no_faults ''job-1'' 10 example_request NewQueue)"

definition example_processing :: Queue where
  "example_processing = snd (Dequeue no_faults 20 example_queued)"

definition example_job :: ScanJob where
  "example_job =
     \<lparr>ID = ''job-1'', URL = ''https://example.com'', WebhookURL = ''https://hook.example/cb'',
      CallbackID = ''cb-1'', Status = StatusQueued, CreatedAt = 10, StartedAt = None,
      CompletedAt = None, CrawlTime = [], Error = [], Emails = [], PagesVisited = 0\<rparr>"

section \<open>Sequences of Job Store operations\<close>

text \<open>One call of the Job Store, with the clock reading and the arguments it gets. The
  store answers every command.\<close>

datatype store_op =
  OpEnqueue string time AsyncScanRequest
  | OpDequeue time
  | OpCompleteJob time ScanJob "string list" int string
  | OpFailJob time ScanJob string
  | OpCancelJob time string
  | OpUpdateJob ScanJob

fun apply_op :: "store_op \<Rightarrow> Queue \<Rightarrow> Queue" where
  "apply_op (OpEnqueue jobID now req) q = snd (Enqueue no_faults jobID now req q)"
| "apply_op (OpDequeue now) q = snd (Dequeue no_faults now q)"
| "apply_op (OpCompleteJob now job emails pagesVisited crawlTime) q =
     snd (snd (CompleteJob no_faults now job emails pagesVisited crawlTime q))"
| "apply_op (OpFailJob now job errorMsg) q = snd (snd (FailJob no_faults now job errorMsg q))"
| "apply_op (OpCancelJob now jobID) q = snd (CancelJob no_faults now jobID q)"
| "apply_op (OpUpdateJob job) q = snd (UpdateJob False job q)"

definition run_ops :: "store_op list \<Rightarrow> Queue \<Rightarrow> Queue" where
  "run_ops ops q = fold apply_op ops q"

definition status_of :: "Queue \<Rightarrow> string \<Rightarrow> JobStatus option" where
  "status_of q jobID = map_option Status (job_records q (JobKeyPrefix @ jobID))"

text \<open>The job-status state machine: the four edges, and what may happen to one stored
  record in one step. A record that changes at all changes its status along an edge; so
  a record in a terminal status, from which no edge leaves, stays as it is.\<close>

definition job_transitions :: "(JobStatus \<times> JobStatus) list" where
  "job_transitions =
     [(StatusQueued, StatusProcessing), (StatusProcessing, StatusCompleted),
      (StatusProcessing, StatusFailed), (StatusQueued, StatusCancelled)]"

definition terminal :: "JobStatus \<Rightarrow> bool" where
  "terminal s = (s = StatusCompleted \<or> s = StatusFailed \<or> s = StatusCancelled)"

fun lawful_change :: "ScanJob option \<Rightarrow> ScanJob option \<Rightarrow> bool" where
  "lawful_change None None = True"
| "lawful_change None (Some j') = (Status j' = StatusQueued)"
| "lawful_change (Some j) None = False"
| "lawful_change (Some j) (Some j') =
     (j' = j \<or> (Status j, Status j') \<in> set job_transitions)"

text \<open>
  The store together with the job handles that workers hold: a handle is what \<open>Dequeue\<close>
  returned and the worker has not yet passed to \<open>CompleteJob\<close> or \<open>FailJob\<close>. The worker
  pool and the handlers drive the store in this way only: \<open>Enqueue\<close> with a fresh
  identifier, \<open>Dequeue\<close>, \<open>CompleteJob\<close> or \<open>FailJob\<close> on a held handle, \<open>CancelJob\<close> on
  any identifier; \<open>UpdateJob\<close> is called from inside these operations only. \<open>driven\<close>
  admits these calls, except \<open>CancelJob\<close> on a job whose stored status is terminal.
\<close>

record System =
  sys_store :: Queue
  sys_held :: "ScanJob list"

fun driven :: "store_op \<Rightarrow> System \<Rightarrow> bool" where
  "driven (OpEnqueue jobID now req) s =
     (job_records (sys_store s) (JobKeyPrefix @ jobID) = None)"
| "driven (OpDequeue now) s = True"
| "driven (OpCompleteJob now job emails pagesVisited crawlTime) s =
     (job \<in> set (sys_held s))"
| "driven (OpFailJob now job errorMsg) s = (job \<in> set (sys_held s))"
| "driven (OpCancelJob now jobID) s =
     (case job_records (sys_store s) (JobKeyPrefix @ jobID) of
        None \<Rightarrow> True
      | Some job \<Rightarrow> \<not> terminal (Status job))"
| "driven (OpUpdateJob job) s = False"

fun sys_step :: "store_op \<Rightarrow> System \<Rightarrow> System" where
  "sys_step (OpDequeue now) s =
     (case Dequeue no_faults now (sys_store s) of
        (Inr (Some job), q) \<Rightarrow> \<lparr>sys_store = q, sys_held = job # sys_held s\<rparr>
      | (_, q) \<Rightarrow> \<lparr>sys_store = q, sys_held = sys_held s\<rparr>)"
| "sys_step (OpCompleteJob now job emails pagesVisited crawlTime) s =
     \<lparr>sys_store = apply_op (OpCompleteJob now job emails pagesVisited crawlTime) (sys_store s),
      sys_held = removeAll job (sys_held s)\<rparr>"
| "sys_step (OpFailJob now job errorMsg) s =
     \<lparr>sys_store = apply_op (OpFailJob now job errorMsg) (sys_store s),
      sys_held = removeAll job (sys_held s)\<rparr>"
| "sys_step op s = \<lparr>sys_store = apply_op op (sys_store s), sys_held = sys_held s\<rparr>"

fun sys_run :: "store_op list \<Rightarrow> System \<Rightarrow> System option" where
  "sys_run [] s = Some s"
| "sys_run (op # ops) s = (if driven op s then sys_run ops (sys_step op s) else None)"

definition NewSystem :: System where
  "NewSystem = \<lparr>sys_store = NewQueue, sys_held = []\<rparr>"

definition example_handle :: ScanJob where
  "example_handle = example_job\<lparr>Status := StatusProcessing, StartedAt := Some 20\<rparr>"

text \<open>What every state reached in this way satisfies: a record is stored under its own
  identifier, the queue holds each identifier once and only those of \<open>queued\<close> records,
  and the handles held have different identifiers whose records are \<open>processing\<close>.\<close>

definition sys_inv :: "System \<Rightarrow> bool" where
  "sys_inv s =
     ((\<forall>k j. job_records (sys_store s) k = Some j \<longrightarrow> k = JobKeyPrefix @ ID j)
      \<and> distinct (job_queue (sys_store s))
      \<and> (\<forall>i \<in> set (job_queue (sys_store s)). status_of (sys_store s) i = Some StatusQueued)
      \<and> distinct (map ID (sys_held s))
      \<and> (\<forall>h \<in> set (sys_held s). status_of (sys_store s) (ID h) = Some StatusProcessing))"

section \<open>Configuration\<close>

text \<open>The fields of \<open>config.Config\<close> that the crawl, the cache and the webhook read.\<close>

record Config =
  MaxDepth :: int
  DeduplicateEmails_cfg :: bool
  CacheEnabled :: bool
  AsyncWebhookRetries :: int

definition example_config :: Config where
  "example_config =
     \<lparr>MaxDepth = 3, DeduplicateEmails_cfg = True, CacheEnabled = True, AsyncWebhookRetries = 3\<rparr>"

section \<open>URLs\<close>

text \<open>
  A parsed URL as package \<open>net/url\<close> hands it out, with the fields the program reads or
  that make up its text; \<open>Host\<close> is \<open>host\<close> or \<open>host:port\<close>, \<open>Path\<close> is the decoded path,
  \<open>User\<close> the user information if there is one. The functions of \<open>net/url\<close>
  (\<open>url.Parse\<close>, \<open>(*URL).Parse\<close>, \<open>(*URL).String\<close>), the digest \<open>sha256.Sum256\<close> printed
  in hexadecimal, and the page fetch are arguments of the functions that call them.
\<close>

record url =
  Scheme :: string
  User :: "string option"
  Host :: string
  Path :: string
  RawQuery :: string
  Fragment :: string

section \<open>Result Cache\<close>

record CachedResult =
  cached_Emails :: "string list"
  cached_Timestamp :: time
  cached_Depth :: int
  cached_PagesVisited :: int

text \<open>The cache manager: \<open>client\<close> is what the backing store holds under the cache keys.
  A value is kept as the structure itself; the store holds its JSON text, which decodes
  to the same structure when the strings in it are valid UTF-8, as ASCII strings are
  (\<open>json.Marshal\<close> replaces other bytes).\<close>

record CacheManager =
  enabled :: bool
  config :: Config
  client :: "string \<rightharpoonup> CachedResult"

datatype cache_error = ErrSetCache | ErrDelCache

text \<open>The cache key. The host is lower-cased by \<^const>\<open>ToLower\<close>, the library's function
  on a host name in ASCII.\<close>

definition normalizedURL :: "url \<Rightarrow> string" where
  "normalizedURL parsedURL = TrimSuffix (ToLower (Host parsedURL) @ Path parsedURL) ''/''"

definition generateKey :: "(string \<Rightarrow> url option) \<Rightarrow> (string \<Rightarrow> string) \<Rightarrow> string \<Rightarrow> string" where
  "generateKey parse digest rawURL =
     (case parse rawURL of
        None \<Rightarrow> ''crawler:emails:'' @ digest rawURL
      | Some parsedURL \<Rightarrow> ''crawler:emails:'' @ digest (normalizedURL parsedURL))"

text \<open>\<open>Get\<close>: a miss when the cache is disabled, when the store's command fails, or when
  the store holds nothing under the key (never written, expired or evicted).\<close>

definition Get ::
  "(string \<Rightarrow> url option) \<Rightarrow> (string \<Rightarrow> string) \<Rightarrow> bool \<Rightarrow> string \<Rightarrow> CacheManager
     \<Rightarrow> CachedResult option" where
  "Get parse digest fails rawURL cm =
     (if \<not> enabled cm then None
      else (let key = generateKey parse digest rawURL
            in if fails then None else client cm key))"

text \<open>\<open>DeduplicateEmails\<close>: behind the configuration switch, the distinct non-empty
  normalized addresses are collected in a map and come back sorted (\<open>sort.Strings\<close>
  compares byte by byte). Addresses are ASCII strings, as the crawler's pattern matches
  them; on these \<^const>\<open>ToLower\<close> and \<^const>\<open>TrimSpace\<close> are the library's functions.\<close>

definition emailMap :: "string list \<Rightarrow> string set" where
  "emailMap emails =
     fold (\<lambda>email m. let normalizedEmail = TrimSpace (ToLower email)
                      in if normalizedEmail \<noteq> [] then insert normalizedEmail m else m)
       emails {}"

definition DeduplicateEmails :: "CacheManager \<Rightarrow> string list \<Rightarrow> string list" where
  "DeduplicateEmails cm emails =
     (if \<not> DeduplicateEmails_cfg (config cm) then emails
      else sorted_list_of_set (emailMap emails))"

definition Set ::
  "(string \<Rightarrow> url option) \<Rightarrow> (string \<Rightarrow> string) \<Rightarrow> bool \<Rightarrow> time \<Rightarrow> string \<Rightarrow> string list
     \<Rightarrow> int \<Rightarrow> int \<Rightarrow> CacheManager \<Rightarrow> cache_error option \<times> CacheManager" where
  "Set parse digest fails now rawURL emails depth pagesVisited cm =
     (if \<not> enabled cm then (None, cm)
      else (let deduplicatedEmails = DeduplicateEmails cm emails;
                result = \<lparr>cached_Emails = deduplicatedEmails, cached_Timestamp = now,
                          cached_Depth = depth, cached_PagesVisited = pagesVisited\<rparr>;
                key = generateKey parse digest rawURL
            in if fails then (Some ErrSetCache, cm)
               else (None, cm\<lparr>client := (client cm)(key \<mapsto> result)\<rparr>)))"

definition InvalidateURL ::
  "(string \<Rightarrow> url option) \<Rightarrow> (string \<Rightarrow> string) \<Rightarrow> bool \<Rightarrow> string \<Rightarrow> CacheManager
     \<Rightarrow> cache_error option \<times> CacheManager" where
  "InvalidateURL parse digest fails rawURL cm =
     (if \<not> enabled cm then (None, cm)
      else (let key = generateKey parse digest rawURL
            in if fails then (Some ErrDelCache, cm)
               else (None, cm\<lparr>client := (client cm)(key := None)\<rparr>)))"

section \<open>Plain URLs, for the examples\<close>

text \<open>
  The examples need \<open>net/url\<close> on concrete texts. The following covers URLs of the plain
  form \<open>scheme://userinfo@host/path?query#fragment\<close> (every part optional) without
  percent-escapes, and gives on them what \<open>url.Parse\<close>, \<open>(*URL).String\<close> and
  \<open>(*URL).Parse\<close> give; a text with a percent sign is turned down. The theorems about
  the program do not depend on it: they hold for every parser.
\<close>

fun cut :: "char \<Rightarrow> string \<Rightarrow> string \<times> string option" where
  "cut sep [] = ([], None)"
| "cut sep (c # cs) =
     (if c = sep then ([], Some cs)
      else (case cut sep cs of (before, after) \<Rightarrow> (c # before, after)))"

definition isCTL :: "char \<Rightarrow> bool" where
  "isCTL c = (c < CHR 0x20 \<or> c = CHR 0x7F)"

definition isLetter :: "char \<Rightarrow> bool" where
  "isLetter c = (CHR ''a'' \<le> c \<and> c \<le> CHR ''z'' \<or> CHR ''A'' \<le> c \<and> c \<le> CHR ''Z'')"

definition isDigit :: "char \<Rightarrow> bool" where
  "isDigit c = (CHR ''0'' \<le> c \<and> c \<le> CHR ''9'')"

definition schemeChar :: "char \<Rightarrow> bool" where
  "schemeChar c = (isLetter c \<or> isDigit c \<or> c \<in> set ''+-.'')"

definition hostChar :: "char \<Rightarrow> bool" where
  "hostChar c =
     (CHR 0x80 \<le> c \<or> isLetter c \<or> isDigit c
      \<or> c \<in> set ''-_.~!$&()*+,;=:[]<>'' \<or> c = CHR 0x22 \<or> c = CHR 0x27)"

text \<open>\<open>getScheme\<close>: the scheme and the rest, no scheme when the text does not start with
  letters followed by a colon, an error when it starts with a colon.\<close>

definition getScheme :: "string \<Rightarrow> (string \<times> string) option" where
  "getScheme rawURL =
     (case rawURL of
        [] \<Rightarrow> Some ([], [])
      | c # cs \<Rightarrow>
          if c = CHR '':'' then None
          else if \<not> isLetter c then Some ([], rawURL)
          else (case dropWhile schemeChar rawURL of
                  [] \<Rightarrow> Some ([], rawURL)
                | d # rest \<Rightarrow>
                    if d = CHR '':'' then Some (takeWhile schemeChar rawURL, rest)
                    else Some ([], rawURL)))"

definition parseAuthority :: "string \<Rightarrow> (string option \<times> string) option" where
  "parseAuthority authority =
     (let afterAt = rev (takeWhile (\<lambda>c. c \<noteq> CHR ''@'') (rev authority));
          userinfo = (if CHR ''@'' \<in> set authority
                      then Some (take (length authority - length afterAt - 1) authority)
                      else None)
      in if list_all hostChar afterAt then Some (userinfo, afterAt) else None)"

definition url_Parse :: "string \<Rightarrow> url option" where
  "url_Parse rawURL =
     (case cut CHR ''#'' rawURL of
        (u, frag) \<Rightarrow>
          if list_ex isCTL u \<or> CHR ''%'' \<in> set rawURL then None
          else (case getScheme u of
                  None \<Rightarrow> None
                | Some (scheme, rest0) \<Rightarrow>
                    (case cut CHR ''?'' rest0 of
                       (rest, query) \<Rightarrow>
                         (let blank = \<lparr>Scheme = ToLower scheme, User = None, Host = [],
                                        Path = [],
                                        RawQuery = (case query of None \<Rightarrow> [] | Some q \<Rightarrow> q),
                                        Fragment = (case frag of None \<Rightarrow> [] | Some f \<Rightarrow> f)\<rparr>
                          in if \<not> HasPrefix rest ''/'' \<and> scheme \<noteq> [] then Some blank
                             else if \<not> HasPrefix rest ''/''
                                     \<and> CHR '':'' \<in> set (fst (cut CHR ''/'' rest)) then None
                             else if HasPrefix rest ''//''
                                     \<and> (scheme \<noteq> [] \<or> \<not> HasPrefix rest ''///'') then
                               (let authority = takeWhile (\<lambda>c. c \<noteq> CHR ''/'') (drop 2 rest);
                                    path = dropWhile (\<lambda>c. c \<noteq> CHR ''/'') (drop 2 rest)
                                in (case parseAuthority authority of
                                      None \<Rightarrow> None
                                    | Some (userinfo, host) \<Rightarrow>
                                        Some (blank\<lparr>User := userinfo, Host := host,
                                                     Path := path\<rparr>)))
                             else Some (blank\<lparr>Path := rest\<rparr>)))))"

text \<open>The digest of the examples: the text itself, which no two texts share. SHA-256
  is taken to tell the texts of the examples apart in the same way.\<close>

definition plain_digest :: "string \<Rightarrow> string" where
  "plain_digest s = s"

definition example_cache :: CacheManager where
  "example_cache = \<lparr>enabled = True, config = example_config, client = Map.empty\<rparr>"

definition example_url :: string where
  "example_url = ''https://example.com''"

definition example_emails :: "string list" where
  "example_emails = ['' B@x.com'', ''a@x.com'', ''b@X.com '']"

definition blank_emails :: "string list" where
  "blank_emails = [''A@x.com'', ''  '']"

definition raw_emails :: "string list" where
  "raw_emails = ['' B@x.com'', ''a@x.com'', ''a@x.com'']"

definition example_cache_raw :: CacheManager where
  "example_cache_raw =
     example_cache\<lparr>config := example_config\<lparr>DeduplicateEmails_cfg := False\<rparr>\<rparr>"

text \<open>The URLs of the examples about cache keys.\<close>

definition url_lower :: string where
  "url_lower = ''http://example.com/a''"

definition url_upper_slash :: string where
  "url_upper_slash = ''HTTP://Example.com/a/''"

definition url_path_upper :: string where
  "url_path_upper = ''http://example.com/A''"

definition url_one_slash :: string where
  "url_one_slash = ''http://example.com/a/''"

definition url_two_slashes :: string where
  "url_two_slashes = ''http://example.com/a//''"

definition url_query_fragment :: string where
  "url_query_fragment = ''http://example.com/a?x=1#top''"

definition url_userinfo_https :: string where
  "url_userinfo_https = ''https://user:pw@example.com/a?y=2''"

definition plain_url :: "string \<Rightarrow> string \<Rightarrow> string \<Rightarrow> url" where
  "plain_url scheme host path =
     \<lparr>Scheme = scheme, User = None, Host = host, Path = path, RawQuery = [], Fragment = []\<rparr>"

section \<open>Crawl Engine\<close>

text \<open>
  What the crawler sees of a fetched page: the \<open>content\<close> attribute of its meta-refresh
  element (empty when there is none), the text of its body, and the \<open>href\<close> attributes of
  its links in document order.
\<close>

record page =
  metaRefresh :: string
  bodyText :: string
  hrefs :: "string list"

text \<open>
  The outside of the crawler: the text of a URL (\<open>u.String()\<close>), the resolution of a
  reference against a base URL (\<open>base.Parse(ref)\<close>, which can fail), the fetch of a URL
  text (a page when the GET succeeds with status 200 and the document parses, nothing
  otherwise), and the matches of \<open>emailRegex\<close> in a text. The crawler applies
  \<open>strings.ToLower\<close> and \<open>strings.TrimSpace\<close> to text that comes from the web, which is
  any byte sequence; there the two are the library's functions, Unicode case folding and
  Unicode white space included, and belong to the outside as well.
\<close>

record env =
  url_String :: "url \<Rightarrow> string"
  url_ParseRef :: "url \<Rightarrow> string \<Rightarrow> url option"
  fetch :: "string \<Rightarrow> page option"
  emailRegex_FindAllString :: "string \<Rightarrow> string list"
  strings_ToLower :: "string \<Rightarrow> string"
  strings_TrimSpace :: "string \<Rightarrow> string"

definition contactKeywords :: "string list" where
  "contactKeywords =
     [
      ''contact'', ''contacto'', ''about'', ''info'', ''acerca'', ''informacion'',
      ''informaci'' @ [CHR 0xC3, CHR 0xB3] @ ''n'', ''equipo'', ''team'', ''nosotros'',
      ''empresa'', ''quienes-somos'', ''contact-us'', ''about-us'', ''team'', ''support'',
      ''help'', ''reach'', ''get-in-touch'', ''who-we-are'', ''our-team'', ''meet-team'',
      ''staff'', ''office'', ''headquarters'', ''nous-contacter'', ''au-sujet'',
      [CHR 0xC3, CHR 0xA0] @ ''-propos'', ''propos'', [CHR 0xC3, CHR 0xA9] @ ''quipe'',
      ''qui-sommes-nous'', ''notre-'' @ [CHR 0xC3, CHR 0xA9] @ ''quipe'',
      ''mentions-legales'', ''aide'', ''assistance'', ''bureau'', ''kontakt'',
      ''kontaktiere'', ''kontaktieren'', [CHR 0xC3, CHR 0xBC] @ ''ber-uns'',
      [CHR 0xC3, CHR 0xBC] @ ''ber'', ''ueber'', ''impressum'', ''team'', ''unser-team'',
      ''wir'', ''firma'', ''unternehmen'', ''hilfe'',
      ''unterst'' @ [CHR 0xC3, CHR 0xBC] @ ''tzung'',
      ''b'' @ [CHR 0xC3, CHR 0xBC] @ ''ro'', ''contatti'', ''chi-siamo'', ''su-di-noi'',
      ''squadra'', ''team'', ''ufficio'', ''informazioni'', ''aiuto'', ''supporto'',
      ''sede'', ''contato'', ''sobre'', ''sobre-nos'', ''equipe'', ''time'',
      ''quem-somos'', ''informacoes'', ''ajuda'', ''suporte'', ''escritorio'', ''staff'',
      ''people'', ''directory'', ''location'', ''address'', ''phone'', ''email'',
      ''reach-us'', ''get-help'', ''customer-service'', ''atendimento'',
      ''servicio-cliente'']"

text \<open>
  The crawler's fields, and with them the lines \<open>Crawling [Depth: d]: u\<close> that
  \<open>crawlRecursive\<close> logs right before each fetch, oldest first: \<open>crawlLog\<close> is the
  record of what was fetched and at which depth. \<open>baseURL\<close> is unset in a crawler that
  \<open>New\<close> returns.
\<close>

record Crawler =
  maxDepth :: int
  visited :: "string set"
  emails :: "string set"
  baseURL :: "url option"
  crawlLog :: "(url \<times> int) list"

definition New :: "int \<Rightarrow> Crawler" where
  "New maxDepth' =
     \<lparr>maxDepth = maxDepth', visited = {}, emails = {}, baseURL = None, crawlLog = []\<rparr>"

definition isContactLink :: "env \<Rightarrow> string \<Rightarrow> bool" where
  "isContactLink env path =
     (let lowerPath = strings_ToLower env path
      in list_ex (\<lambda>keyword. Contains lowerPath keyword) contactKeywords)"

definition resolveURL :: "env \<Rightarrow> url \<Rightarrow> string \<Rightarrow> url option" where
  "resolveURL env base href = url_ParseRef env base href"

text \<open>\<open>parseMetaRefresh\<close>: of the parts after the first semicolon, the first that starts
  with \<open>url=\<close> (in any case) and whose remainder resolves. The remainder is \<open>part[4:]\<close>:
  the only bytes that \<open>strings.ToLower\<close> turns into \<open>u\<close>, \<open>r\<close>, \<open>l\<close> and \<open>=\<close> are these
  and \<open>U\<close>, \<open>R\<close>, \<open>L\<close>, so a part whose lower-cased text starts with \<open>url=\<close> has these four
  bytes in front and the slice is in range.\<close>

fun firstRedirect :: "env \<Rightarrow> url \<Rightarrow> string list \<Rightarrow> url option" where
  "firstRedirect env base [] = None"
| "firstRedirect env base (part0 # parts) =
     (let part = strings_TrimSpace env part0
      in if HasPrefix (strings_ToLower env part) ''url='' then
           (case url_ParseRef env base (strings_TrimSpace env (drop 4 part)) of
              Some redirectURL \<Rightarrow> Some redirectURL
            | None \<Rightarrow> firstRedirect env base parts)
         else firstRedirect env base parts)"

definition parseMetaRefresh :: "env \<Rightarrow> string \<Rightarrow> url \<Rightarrow> url option" where
  "parseMetaRefresh env content base =
     (let parts = Split content CHR '';''
      in if length parts < 2 then None else firstRedirect env base (tl parts))"

text \<open>
  A crawl ends normally, or it dereferences the unset \<open>baseURL\<close>, or it does not end
  within the recursion depth it is given: the web is an arbitrary function here, and a
  site that keeps producing new contact links is crawled without end. The first argument
  after the environment bounds the nesting of \<open>crawlRecursive\<close> calls; in each case the
  crawler is returned as it is at that point. A depth never exceeds \<open>maxDepth + 1\<close>, so
  it is an integer without wrap-around here.
\<close>

datatype outcome = Done Crawler | OutOfFuel Crawler | Panic Crawler

fun state_of :: "outcome \<Rightarrow> Crawler" where
  "state_of (Done c) = c"
| "state_of (OutOfFuel c) = c"
| "state_of (Panic c) = c"

fun crawlRecursive :: "env \<Rightarrow> nat \<Rightarrow> url \<Rightarrow> int \<Rightarrow> Crawler \<Rightarrow> outcome"
  and crawlLinks :: "env \<Rightarrow> nat \<Rightarrow> url \<Rightarrow> int \<Rightarrow> string list \<Rightarrow> Crawler \<Rightarrow> outcome" where
  "crawlRecursive env 0 u depth c = OutOfFuel c"
| "crawlRecursive env (Suc n) u depth c =
     (if depth > maxDepth c \<or> url_String env u \<in> visited c then Done c
      else (case baseURL c of
              None \<Rightarrow> Panic c
            | Some base \<Rightarrow>
                if Host u \<noteq> Host base then Done c
                else (let c1 = c\<lparr>visited := insert (url_String env u) (visited c),
                                   crawlLog := crawlLog c @ [(u, depth)]\<rparr>
                      in (case fetch env (url_String env u) of
                            None \<Rightarrow> Done c1
                          | Some doc \<Rightarrow>
                              (case (if metaRefresh doc \<noteq> []
                                     then parseMetaRefresh env (metaRefresh doc) u
                                     else None) of
                                 Some redirectURL \<Rightarrow> crawlRecursive env n redirectURL depth c1
                               | None \<Rightarrow>
                                   crawlLinks env n u depth (hrefs doc)
                                     (c1\<lparr>emails := emails c1
                                          \<union> strings_ToLower env ` set (emailRegex_FindAllString env
                                                              (bodyText doc))\<rparr>))))))"
| "crawlLinks env n u depth [] c = Done c"
| "crawlLinks env n u depth (href # rest) c =
     (case resolveURL env u href of
        None \<Rightarrow> crawlLinks env n u depth rest c
      | Some nextURL \<Rightarrow>
          (case crawlRecursive env n nextURL
                  (if isContactLink env (Path nextURL) then depth else depth + 1) c of
             Done c' \<Rightarrow> crawlLinks env n u depth rest c'
           | OutOfFuel c' \<Rightarrow> OutOfFuel c'
           | Panic c' \<Rightarrow> Panic c'))"

definition Crawl :: "env \<Rightarrow> nat \<Rightarrow> Crawler \<Rightarrow> url \<Rightarrow> outcome" where
  "Crawl env fuel c startURL = crawlRecursive env fuel startURL 0 (c\<lparr>baseURL := Some startURL\<rparr>)"

text \<open>
  How a crawler state \<open>c'\<close> continues a state \<open>c\<close>: same base URL and depth bound, and the
  log grown by entries whose URL texts are new to \<open>c\<close>, pairwise different and now
  marked visited, each within the depth bound and on the host of the base URL.
\<close>

definition extends :: "env \<Rightarrow> Crawler \<Rightarrow> Crawler \<Rightarrow> bool" where
  "extends env c c' =
     (baseURL c' = baseURL c \<and> maxDepth c' = maxDepth c
      \<and> (\<exists>new. crawlLog c' = crawlLog c @ new
            \<and> visited c' = visited c \<union> set (map (\<lambda>x. url_String env (fst x)) new)
            \<and> distinct (map (\<lambda>x. url_String env (fst x)) new)
            \<and> (\<forall>x \<in> set new. url_String env (fst x) \<notin> visited c \<and> snd x \<le> maxDepth c
                   \<and> (\<forall>b. baseURL c = Some b \<longrightarrow> Host (fst x) = Host b))))"

text \<open>A page that declares a meta-refresh which \<open>parseMetaRefresh\<close> resolves to \<open>t\<close>, and a
  chain of such pages that ends in \<open>t\<close>.\<close>

definition redirects_to :: "env \<Rightarrow> url \<Rightarrow> url \<Rightarrow> bool" where
  "redirects_to env u t =
     (case fetch env (url_String env u) of
        None \<Rightarrow> False
      | Some doc \<Rightarrow>
          metaRefresh doc \<noteq> [] \<and> parseMetaRefresh env (metaRefresh doc) u = Some t)"

fun redirect_chain :: "env \<Rightarrow> url list \<Rightarrow> url \<Rightarrow> bool" where
  "redirect_chain env [] t = True"
| "redirect_chain env [u] t = redirects_to env u t"
| "redirect_chain env (u # v # us) t = (redirects_to env u v \<and> redirect_chain env (v # us) t)"

section \<open>A plain web, for the examples\<close>

text \<open>The text of a plain URL and the resolution of a plain reference, as
  \<open>(*URL).String\<close> and \<open>(*URL).Parse\<close> give them when nothing needs escaping.\<close>

definition url_String_plain :: "url \<Rightarrow> string" where
  "url_String_plain u =
     (if Scheme u \<noteq> [] then Scheme u @ '':'' else [])
     @ (if Scheme u \<noteq> [] \<or> Host u \<noteq> [] \<or> User u \<noteq> None
        then (if Host u \<noteq> [] \<or> Path u \<noteq> [] \<or> User u \<noteq> None then ''//'' else [])
             @ (case User u of None \<Rightarrow> [] | Some ui \<Rightarrow> ui @ ''@'') @ Host u
        else [])
     @ (if Path u \<noteq> [] \<and> hd (Path u) \<noteq> CHR ''/'' \<and> Host u \<noteq> [] then ''/'' else [])
     @ Path u
     @ (if RawQuery u \<noteq> [] then ''?'' @ RawQuery u else [])
     @ (if Fragment u \<noteq> [] then ''#'' @ Fragment u else [])"

text \<open>\<open>resolvePath\<close>: the reference path put on the base path, with the segments \<open>.\<close> and
  \<open>..\<close> taken out. \<open>dst\<close> is the path written so far, \<open>first\<close> says that no segment
  has been written yet.\<close>

fun dotSegment :: "string \<Rightarrow> string \<times> bool \<Rightarrow> string \<times> bool" where
  "dotSegment elem (dst, first) =
     (if elem = ''.'' then (dst, False)
      else if elem = ''..'' then
        (let str = tl dst
         in if CHR ''/'' \<notin> set str then (''/'', True)
            else (''/'' @ rev (tl (dropWhile (\<lambda>c. c \<noteq> CHR ''/'') (rev str))), first))
      else (dst @ (if first then [] else ''/'') @ elem, False))"

definition resolvePath :: "string \<Rightarrow> string \<Rightarrow> string" where
  "resolvePath base ref =
     (let full = (if ref = [] then base
                  else if hd ref \<noteq> CHR ''/''
                  then rev (dropWhile (\<lambda>c. c \<noteq> CHR ''/'') (rev base)) @ ref
                  else ref)
      in if full = [] then []
         else (let elems = Split full CHR ''/'';
                   dst = fst (fold dotSegment elems (''/'', True));
                   r = dst @ (if last elems = ''.'' \<or> last elems = ''..'' then ''/'' else [])
               in if HasPrefix r ''//'' then tl r else r))"

definition ResolveReference :: "url \<Rightarrow> url \<Rightarrow> url" where
  "ResolveReference u ref =
     (let url0 = ref\<lparr>Scheme := (if Scheme ref = [] then Scheme u else Scheme ref)\<rparr>
      in if Scheme ref \<noteq> [] \<or> Host ref \<noteq> [] \<or> User ref \<noteq> None
         then url0\<lparr>Path := resolvePath (Path ref) []\<rparr>
         else (let url1 = (if Path ref = [] \<and> RawQuery ref = []
                           then url0\<lparr>RawQuery := RawQuery u,
                                      Fragment := (if Fragment ref = [] then Fragment u
                                                   else Fragment ref)\<rparr>
                           else url0)
               in url1\<lparr>Host := Host u, User := User u,
                        Path := resolvePath (Path u) (Path ref)\<rparr>))"

definition url_ParseRef_plain :: "url \<Rightarrow> string \<Rightarrow> url option" where
  "url_ParseRef_plain base ref =
     (case url_Parse ref of None \<Rightarrow> None | Some refURL \<Rightarrow> Some (ResolveReference base refURL))"

definition no_emails :: "string \<Rightarrow> string list" where
  "no_emails text = []"

text \<open>The pages of the examples are ASCII text, on which \<open>strings.ToLower\<close> and
  \<open>strings.TrimSpace\<close> are the functions \<^const>\<open>ToLower\<close> and \<^const>\<open>TrimSpace\<close>.\<close>

definition web_env :: "(string \<times> page) list \<Rightarrow> env" where
  "web_env pages =
     \<lparr>url_String = url_String_plain, url_ParseRef = url_ParseRef_plain, fetch = map_of pages,
      emailRegex_FindAllString = no_emails, strings_ToLower = ToLower,
      strings_TrimSpace = TrimSpace\<rparr>"

definition site :: "string \<Rightarrow> url" where
  "site path = plain_url ''http'' ''h.example'' path"

definition linking :: "string list \<Rightarrow> page" where
  "linking links = \<lparr>metaRefresh = [], bodyText = [], hrefs = links\<rparr>"

definition redirecting :: "string \<Rightarrow> string list \<Rightarrow> page" where
  "redirecting content links = \<lparr>metaRefresh = content, bodyText = [], hrefs = links\<rparr>"

text \<open>A site whose start page links to \<open>/a\<close> and to \<open>/a/\<close>.\<close>

definition slash_web :: env where
  "slash_web =
     web_env [(''http://h.example/'', linking [''/a'', ''/a/'']),
              (''http://h.example/a'', linking []),
              (''http://h.example/a/'', linking [])]"

text \<open>A site whose start page links to another host, to a contact page and to a plain
  page.\<close>

definition links_web :: env where
  "links_web =
     web_env [(''http://h.example/'',
                 linking [''http://other.example/'', ''/Contact-Us'', ''/news'']),
              (''http://h.example/Contact-Us'', linking []),
              (''http://h.example/news'', linking [])]"

text \<open>A site whose start page redirects to \<open>/r\<close>, which redirects on to \<open>/end\<close>; both
  redirecting pages carry a link of their own.\<close>

definition redirect_web :: env where
  "redirect_web =
     web_env [(''http://h.example/'', redirecting ''0; url=/r'' [''/skipped'']),
              (''http://h.example/r'', redirecting ''5;URL= http://h.example/end'' [''/skipped'']),
              (''http://h.example/end'', linking []),
              (''http://h.example/skipped'', linking [])]"

text \<open>The crawler of depth bound \<open>md\<close> on this site right after \<open>Crawl\<close> has set the base
  URL, and right after the start page has been fetched.\<close>

definition started :: "int \<Rightarrow> Crawler" where
  "started md = (New md)\<lparr>baseURL := Some (site ''/'')\<rparr>"

definition at_root :: "int \<Rightarrow> Crawler" where
  "at_root md =
     (started md)\<lparr>visited := {''http://h.example/''}, crawlLog := [(site ''/'', 0)]\<rparr>"

definition other_host :: url where
  "other_host = plain_url ''http'' ''other.example'' ''/''"

text \<open>
  A path outside ASCII: \<open>/B\<close>, the two bytes of U+00DC (capital U with diaeresis),
  \<open>RO\<close>. \<open>ToLowerLatin\<close> is \<open>strings.ToLower\<close> on text whose runes beyond ASCII are
  the letters U+00C0 to U+00DE, which it maps to U+00E0 to U+00FE by setting one bit of
  the second byte; \<open>latin_web\<close> is an empty web that has it.
\<close>

fun ToLowerLatin :: "string \<Rightarrow> string" where
  "ToLowerLatin [] = []"
| "ToLowerLatin [c] = [ToLowerChar c]"
| "ToLowerLatin (c # d # cs) =
     (if c = CHR 0xC3 \<and> CHR 0x80 \<le> d \<and> d \<le> CHR 0x9E \<and> d \<noteq> CHR 0x97
      then c # (case d of Char b0 b1 b2 b3 b4 b5 b6 b7 \<Rightarrow> Char b0 b1 b2 b3 b4 True b6 b7)
             # ToLowerLatin cs
      else ToLowerChar c # ToLowerLatin (d # cs))"

definition latin_web :: env where
  "latin_web = (web_env [])\<lparr>strings_ToLower := ToLowerLatin\<rparr>"

definition buero_upper :: string where
  "buero_upper = ''/B'' @ [CHR 0xC3, CHR 0x9C] @ ''RO''"

definition buero_lower :: string where
  "buero_lower = ''/b'' @ [CHR 0xC3, CHR 0xBC] @ ''ro''"
section \<open>Webhook delivery\<close>

record WebhookPayload =
  payload_JobID :: string
  payload_CallbackID :: string
  payload_Status :: JobStatus
  payload_URL :: string
  payload_Emails :: "string list"
  payload_CrawlTime :: string
  payload_PagesVisited :: int
  payload_CompletedAt :: time
  payload_Error :: string

text \<open>
  What one \<open>client.Post\<close> comes back with: a transport error (which includes the
  per-attempt timeout) or a response with its status code. What \<open>sendWebhook\<close> does to
  the outside is the sequence of its posts and sleeps. A \<open>time.Duration\<close> is a 64-bit
  signed count of nanoseconds, and its multiplication wraps.
\<close>

datatype post_result = TransportError | Response int

type_synonym Duration = "64 word"

datatype webhook_event = Post string WebhookPayload | Sleep Duration

definition Second :: Duration where
  "Second = 1000000000"

definition backoff :: "int \<Rightarrow> Duration" where
  "backoff attempt = word_of_int attempt * 2 * Second"

text \<open>The retry loop of \<open>sendWebhook\<close>, entered at \<open>attempt\<close>; \<open>endpoint a\<close> is the
  outcome of the post of attempt \<open>a\<close>. The counter stops at \<open>retries\<close>, so it never
  leaves the range of the machine integer.\<close>

function sendWebhook_loop ::
  "(int \<Rightarrow> post_result) \<Rightarrow> int \<Rightarrow> string \<Rightarrow> WebhookPayload \<Rightarrow> int \<Rightarrow> webhook_event list" where
  "sendWebhook_loop endpoint retries url payload attempt =
     (if attempt \<le> retries then
        Post url payload #
        (case endpoint attempt of
           TransportError \<Rightarrow>
             if attempt = retries then []
             else Sleep (backoff attempt)
                    # sendWebhook_loop endpoint retries url payload (attempt + 1)
         | Response code \<Rightarrow>
             if 200 \<le> code \<and> code < 300 then []
             else if attempt = retries then []
             else Sleep (backoff attempt)
                    # sendWebhook_loop endpoint retries url payload (attempt + 1))
      else [])"
  by pat_completeness auto
termination
  by (relation "measure (\<lambda>(endpoint, retries, url, payload, attempt). nat (retries + 1 - attempt))")
    auto

declare sendWebhook_loop.simps [simp del]

text \<open>
  What a worker works on: the job store, the result cache, and the posts it has sent and
  the sleeps it has taken so far, oldest first. The job is passed by handle, so it is
  returned too. \<open>json.Marshal\<close> of a payload (strings, integers, a time stamp) does not
  fail.
\<close>

record World =
  jobStore :: Queue
  resultCache :: CacheManager
  outbox :: "webhook_event list"

text \<open>The payload that \<open>sendWebhook\<close> builds from the job, \<open>now\<close> being the clock reading
  it takes for \<open>CompletedAt\<close>.\<close>

definition webhookPayload :: "ScanJob \<Rightarrow> time \<Rightarrow> WebhookPayload" where
  "webhookPayload job now =
     \<lparr>payload_JobID = ID job, payload_CallbackID = CallbackID job,
      payload_Status = Status job, payload_URL = URL job,
      payload_Emails = Emails job, payload_CrawlTime = CrawlTime job,
      payload_PagesVisited = PagesVisited job, payload_CompletedAt = now,
      payload_Error = Error job\<rparr>"

definition sendWebhook ::
  "Config \<Rightarrow> (int \<Rightarrow> post_result) \<Rightarrow> time \<Rightarrow> ScanJob \<Rightarrow> World \<Rightarrow> ScanJob \<times> World" where
  "sendWebhook cfg endpoint now job w =
     (if WebhookURL job = [] then (job, w)
      else (let payload = webhookPayload job now
            in (job, w\<lparr>outbox := outbox w
                  @ sendWebhook_loop endpoint (AsyncWebhookRetries cfg) (WebhookURL job)
                      payload 1\<rparr>)))"

text \<open>Reading a delivery: which events are posts, which are posts for a given job, and
  whether the outcome of a post counts as failed.\<close>

fun is_Post :: "webhook_event \<Rightarrow> bool" where
  "is_Post (Post url payload) = True"
| "is_Post (Sleep d) = False"

fun is_Post_for :: "string \<Rightarrow> webhook_event \<Rightarrow> bool" where
  "is_Post_for jobID (Post url payload) = (payload_JobID payload = jobID)"
| "is_Post_for jobID (Sleep d) = False"

fun attempt_failed :: "post_result \<Rightarrow> bool" where
  "attempt_failed TransportError = True"
| "attempt_failed (Response code) = (\<not> (200 \<le> code \<and> code < 300))"

section \<open>Worker\<close>

text \<open>
  What one run of \<open>processJob\<close> gets from outside: whether the cache's and the job
  store's commands fail, the clock readings inside \<open>Set\<close>, \<open>CompleteJob\<close>, \<open>FailJob\<close> and
  \<open>sendWebhook\<close>, the text of the elapsed time, whether the timeout context is done when
  the crawl has returned, the order in which \<open>range\<close> yields the found addresses, the
  texts of the errors that go into the failure message, and the answers of the webhook
  endpoint.
\<close>

record run =
  run_getFails :: bool
  run_setFails :: bool
  run_setAt :: time
  run_completeFaults :: faults
  run_completeAt :: time
  run_failFaults :: faults
  run_failAt :: time
  run_webhookAt :: time
  run_crawlTime :: string
  run_timedOut :: bool
  run_range :: "string set \<Rightarrow> string list"
  run_errorText :: "job_error \<Rightarrow> string"
  run_parseError :: string
  run_endpoint :: "int \<Rightarrow> post_result"

text \<open>
  \<open>processJob\<close>. The crawl is the one call that may not return (the worker then stays in
  it, and the result is \<open>None\<close>); \<open>fuel\<close> bounds its recursion as in \<^const>\<open>Crawl\<close>. Every
  path that returns calls \<open>sendWebhook\<close> once, on the handle as \<open>CompleteJob\<close> or \<open>FailJob\<close>
  left it, except the path on which completing a cached result fails, which returns
  without a call.
\<close>

definition processJob ::
  "Config \<Rightarrow> (string \<Rightarrow> url option) \<Rightarrow> (string \<Rightarrow> string) \<Rightarrow> env \<Rightarrow> nat \<Rightarrow> run \<Rightarrow> ScanJob
     \<Rightarrow> World \<Rightarrow> (ScanJob \<times> World) option" where
  "processJob cfg parse digest env fuel r job w =
     (case Get parse digest (run_getFails r) (URL job) (resultCache w) of
        Some cachedResult \<Rightarrow>
          (case CompleteJob (run_completeFaults r) (run_completeAt r) job
                  (cached_Emails cachedResult) (cached_PagesVisited cachedResult)
                  (run_crawlTime r) (jobStore w) of
             (Some err, job1, q1) \<Rightarrow>
               (case FailJob (run_failFaults r) (run_failAt r) job1
                       (''Failed to complete job: '' @ run_errorText r err) q1 of
                  (err2, job2, q2) \<Rightarrow> Some (job2, w\<lparr>jobStore := q2\<rparr>))
           | (None, job1, q1) \<Rightarrow>
               Some (sendWebhook cfg (run_endpoint r) (run_webhookAt r) job1
                       (w\<lparr>jobStore := q1\<rparr>)))
      | None \<Rightarrow>
          (case parse (URL job) of
             None \<Rightarrow>
               (case FailJob (run_failFaults r) (run_failAt r) job
                       (''Invalid URL: '' @ run_parseError r) (jobStore w) of
                  (err, job1, q1) \<Rightarrow>
                    Some (sendWebhook cfg (run_endpoint r) (run_webhookAt r) job1
                            (w\<lparr>jobStore := q1\<rparr>)))
           | Some startURL \<Rightarrow>
               (case Crawl env fuel (New (MaxDepth cfg)) startURL of
                  Done c \<Rightarrow>
                    (let foundEmailsMap = emails c
                     in if run_timedOut r then
                          (case FailJob (run_failFaults r) (run_failAt r) job
                                  ''Job timed out'' (jobStore w) of
                             (err, job1, q1) \<Rightarrow>
                               Some (sendWebhook cfg (run_endpoint r) (run_webhookAt r) job1
                                       (w\<lparr>jobStore := q1\<rparr>)))
                        else
                          (let emailList = run_range r foundEmailsMap;
                               cm1 = snd (Set parse digest (run_setFails r) (run_setAt r)
                                            (URL job) emailList (MaxDepth cfg)
                                            (int (card foundEmailsMap)) (resultCache w));
                               deduplicatedEmails = DeduplicateEmails cm1 emailList
                           in (case CompleteJob (run_completeFaults r) (run_completeAt r) job
                                       deduplicatedEmails (int (card foundEmailsMap))
                                       (run_crawlTime r) (jobStore w) of
                                 (Some err, job1, q1) \<Rightarrow>
                                   (case FailJob (run_failFaults r) (run_failAt r) job1
                                           (''Failed to complete job: '' @ run_errorText r err)
                                           q1 of
                                      (err2, job2, q2) \<Rightarrow>
                                        Some (sendWebhook cfg (run_endpoint r)
                                                (run_webhookAt r) job2
                                                (w\<lparr>jobStore := q2, resultCache := cm1\<rparr>)))
                               | (None, job1, q1) \<Rightarrow>
                                   Some (sendWebhook cfg (run_endpoint r) (run_webhookAt r)
                                           job1 (w\<lparr>jobStore := q1, resultCache := cm1\<rparr>)))))
                | OutOfFuel c \<Rightarrow> None
                | Panic c \<Rightarrow> None)))"

text \<open>
  The worker pool and the handlers, as far as jobs move through them: a handler enqueues
  a request under the identifier \<open>uuid.New\<close> draws, which no job has had before; a worker
  dequeues and, if it gets a job, runs \<open>processJob\<close> on it; a handler cancels a job; a
  handler writes to the cache or clears it (a synchronous scan, an invalidation), which
  may leave any cache behind. A worker that does not come back from the crawl has left
  the store as \<open>Dequeue\<close> left it. Any command to the store may fail. A step that cannot
  happen, an \<open>Enqueue\<close> under an identifier that is in use, yields \<open>None\<close>.
\<close>

datatype pool_op =
  PoolEnqueue faults string time AsyncScanRequest
  | PoolWork faults time nat run
  | PoolCancel faults time string
  | PoolCache CacheManager

fun pool_step ::
  "Config \<Rightarrow> (string \<Rightarrow> url option) \<Rightarrow> (string \<Rightarrow> string) \<Rightarrow> env \<Rightarrow> pool_op \<Rightarrow> World
     \<Rightarrow> World option" where
  "pool_step cfg parse digest env (PoolEnqueue f jobID now req) w =
     (if job_records (jobStore w) (JobKeyPrefix @ jobID) = None
      then Some (w\<lparr>jobStore := snd (Enqueue f jobID now req (jobStore w))\<rparr>)
      else None)"
| "pool_step cfg parse digest env (PoolWork f now fuel r) w =
     (case Dequeue f now (jobStore w) of
        (Inr (Some job), q) \<Rightarrow>
          (case processJob cfg parse digest env fuel r job (w\<lparr>jobStore := q\<rparr>) of
             Some (job', w') \<Rightarrow> Some w'
           | None \<Rightarrow> Some (w\<lparr>jobStore := q\<rparr>))
      | (_, q) \<Rightarrow> Some (w\<lparr>jobStore := q\<rparr>))"
| "pool_step cfg parse digest env (PoolCancel f now jobID) w =
     Some (w\<lparr>jobStore := snd (CancelJob f now jobID (jobStore w))\<rparr>)"
| "pool_step cfg parse digest env (PoolCache cm) w = Some (w\<lparr>resultCache := cm\<rparr>)"

fun pool_run ::
  "Config \<Rightarrow> (string \<Rightarrow> url option) \<Rightarrow> (string \<Rightarrow> string) \<Rightarrow> env \<Rightarrow> pool_op list \<Rightarrow> World
     \<Rightarrow> World option" where
  "pool_run cfg parse digest env [] w = Some w"
| "pool_run cfg parse digest env (op # ops) w =
     (case pool_step cfg parse digest env op w of
        None \<Rightarrow> None
      | Some w' \<Rightarrow> pool_run cfg parse digest env ops w')"

definition NewWorld :: "CacheManager \<Rightarrow> World" where
  "NewWorld cm = \<lparr>jobStore = NewQueue, resultCache = cm, outbox = []\<rparr>"

text \<open>
  What \<open>CompleteJob\<close> and \<open>FailJob\<close> do to the store for the job \<open>jobID\<close>: the queue is
  left alone, and no record changes but the one of this job, which stays a record of
  this job. And what holds of every state of the pool: a record is stored under its own
  identifier, the queue holds each identifier once, a queued job has a record and no post
  yet, a job with a post has a record, and no job has more posts than the retry count.
\<close>

definition touches :: "string \<Rightarrow> Queue \<Rightarrow> Queue \<Rightarrow> bool" where
  "touches jobID q q' =
     (job_queue q' = job_queue q
      \<and> (\<forall>k. job_records q' k = job_records q k
             \<or> k = JobKeyPrefix @ jobID \<and> (\<exists>j. job_records q' k = Some j \<and> ID j = jobID)))"

definition pool_inv :: "Config \<Rightarrow> World \<Rightarrow> bool" where
  "pool_inv cfg w =
     ((\<forall>k j. job_records (jobStore w) k = Some j \<longrightarrow> k = JobKeyPrefix @ ID j)
      \<and> distinct (job_queue (jobStore w))
      \<and> (\<forall>i \<in> set (job_queue (jobStore w)).
            job_records (jobStore w) (JobKeyPrefix @ i) \<noteq> None
            \<and> filter (is_Post_for i) (outbox w) = [])
      \<and> (\<forall>i. filter (is_Post_for i) (outbox w) \<noteq> []
            \<longrightarrow> job_records (jobStore w) (JobKeyPrefix @ i) \<noteq> None)
      \<and> (\<forall>i. int (length (filter (is_Post_for i) (outbox w)))
            \<le> max 0 (AsyncWebhookRetries cfg)))"

definition always_500 :: "int \<Rightarrow> post_result" where
  "always_500 attempt = Response 500"

definition example_completed :: ScanJob where
  "example_completed =
     example_job\<lparr>Status := StatusCompleted, StartedAt := Some 20, CompletedAt := Some 40,
                  Emails := [''a@x.com''], PagesVisited := 1, CrawlTime := ''20ms''\<rparr>"

definition example_world :: World where
  "example_world =
     \<lparr>jobStore =
        \<lparr>job_records = [JobKeyPrefix @ ''job-1'' \<mapsto> example_completed], job_queue = [],
         active_jobs = {}\<rparr>,
      resultCache = example_cache, outbox = []\<rparr>"


text \<open>
  A run of \<open>processJob\<close> in which every store command succeeds, the crawl is not timed
  out and the webhook endpoint answers 500 each time; the web has no page at all, so
  the crawl finds nothing. The pool enqueues the example request and a worker takes it.
\<close>

definition example_run :: run where
  "example_run =
     \<lparr>run_getFails = False, run_setFails = False, run_setAt = 25,
      run_completeFaults = no_faults, run_completeAt = 30, run_failFaults = no_faults,
      run_failAt = 30, run_webhookAt = 40, run_crawlTime = ''1s'', run_timedOut = False,
      run_range = sorted_list_of_set, run_errorText = (\<lambda>err. ''store error''),
      run_parseError = ''parse error'', run_endpoint = always_500\<rparr>"

definition example_ops :: "pool_op list" where
  "example_ops =
     [PoolEnqueue no_faults ''job-1'' 10 example_request, PoolWork no_faults 20 1 example_run]"

definition example_done :: ScanJob where
  "example_done =
     example_job\<lparr>Status := StatusCompleted, StartedAt := Some 20, CompletedAt := Some 30,
                  CrawlTime := ''1s''\<rparr>"

definition example_post :: "ScanJob \<Rightarrow> time \<Rightarrow> webhook_event" where
  "example_post job now = Post ''https://hook.example/cb'' (webhookPayload job now)"

definition example_delivery :: "ScanJob \<Rightarrow> time \<Rightarrow> webhook_event list" where
  "example_delivery job now =
     [example_post job now, Sleep (backoff 1), example_post job now, Sleep (backoff 2),
      example_post job now]"
section \<open>Cancelling a job\<close>

text \<open>
  Claim C4. For every job id: when the stored status is \<open>processing\<close>, \<open>CancelJob\<close>
  returns an error and leaves the store as it was, whatever the store's commands do. When
  the stored status is \<open>queued\<close> (the record being stored under its own id, as every
  record is) and the store answers its commands, \<open>CancelJob\<close> returns no error, the record
  becomes \<open>cancelled\<close> with the completion time stamped, every other field and every other
  record is as before, and the id is neither in the queue nor in the active set afterwards.
\<close>

theorem CancelJob_processing_or_queued:
  "(job_records q (JobKeyPrefix @ jobID) = Some job \<and> Status job = StatusProcessing
      \<longrightarrow> (\<exists>e. CancelJob f now jobID q = (Some e, q)))
   \<and> (job_records q (JobKeyPrefix @ jobID) = Some job \<and> Status job = StatusQueued
        \<and> ID job = jobID
      \<longrightarrow> (\<exists>q'. CancelJob no_faults now jobID q = (None, q')
             \<and> job_records q' =
                 (job_records q)(JobKeyPrefix @ jobID \<mapsto>
                    job\<lparr>Status := StatusCancelled, CompletedAt := Some now\<rparr>)
             \<and> jobID \<notin> set (job_queue q')
             \<and> jobID \<notin> active_jobs q'
             \<and> job_queue q' = removeAll jobID (job_queue q)
             \<and> active_jobs q' = active_jobs q - {jobID}))"
  by (simp add: CancelJob_def GetJob_def UpdateJob_def no_faults_def)

lemma example_queued_eq:
  "example_queued =
     \<lparr>job_records = [JobKeyPrefix @ ''job-1'' \<mapsto> example_job], job_queue = [''job-1''],
      active_jobs = {''job-1''}\<rparr>"
  by (simp add: example_queued_def Enqueue_def no_faults_def NewQueue_def example_request_def
      example_job_def Let_def)

lemma example_processing_eq:
  "example_processing =
     \<lparr>job_records =
        [JobKeyPrefix @ ''job-1'' \<mapsto>
           example_job\<lparr>Status := StatusProcessing, StartedAt := Some 20\<rparr>],
      job_queue = [], active_jobs = {''job-1''}\<rparr>"
proof -
  have "ID example_job = ''job-1''"
    by (simp add: example_job_def)
  then show ?thesis
    by (simp add: example_processing_def example_queued_eq Dequeue_def GetJob_def
        UpdateJob_def no_faults_def Let_def)
qed

theorem CancelJob_processing_or_queued_witness:
  "(job_records example_processing (JobKeyPrefix @ ''job-1'') =
      Some (example_job\<lparr>Status := StatusProcessing, StartedAt := Some 20\<rparr>)
    \<and> (\<exists>e. CancelJob no_faults 30 ''job-1'' example_processing = (Some e, example_processing)))
   \<and> (job_records example_queued (JobKeyPrefix @ ''job-1'') = Some example_job
      \<and> Status example_job = StatusQueued \<and> ID example_job = ''job-1''
      \<and> (\<exists>q'. CancelJob no_faults 30 ''job-1'' example_queued = (None, q')
            \<and> job_records q' (JobKeyPrefix @ ''job-1'') =
                Some (example_job\<lparr>Status := StatusCancelled, CompletedAt := Some 30\<rparr>)
            \<and> job_queue q' = [] \<and> active_jobs q' = {}))"
proof -
  let ?jp = "example_job\<lparr>Status := StatusProcessing, StartedAt := Some 20\<rparr>"
  have p: "job_records example_processing (JobKeyPrefix @ ''job-1'') = Some ?jp"
    by (simp add: example_processing_eq)
  have sp: "Status ?jp = StatusProcessing"
    by simp
  have q: "job_records example_queued (JobKeyPrefix @ ''job-1'') = Some example_job"
    by (simp add: example_queued_eq)
  have sq: "Status example_job = StatusQueued" "ID example_job = ''job-1''"
    by (simp_all add: example_job_def)
  from CancelJob_processing_or_queued
    [of example_processing "''job-1''" ?jp no_faults 30] p sp
  have first: "\<exists>e. CancelJob no_faults 30 ''job-1'' example_processing
                 = (Some e, example_processing)"
    by blast
  from CancelJob_processing_or_queued
    [of example_queued "''job-1''" example_job no_faults 30] q sq
  obtain q' where q': "CancelJob no_faults 30 ''job-1'' example_queued = (None, q')"
    "job_records q' =
       (job_records example_queued)(JobKeyPrefix @ ''job-1'' \<mapsto>
          example_job\<lparr>Status := StatusCancelled, CompletedAt := Some 30\<rparr>)"
    "job_queue q' = removeAll ''job-1'' (job_queue example_queued)"
    "active_jobs q' = active_jobs example_queued - {''job-1''}"
    by blast
  have "job_queue q' = []" "active_jobs q' = {}"
    using q'(3,4) by (simp_all add: example_queued_eq)
  with q' p q sq first show ?thesis
    by simp
qed

section \<open>The job-status state machine\<close>

lemma sys_inv_NewSystem: "sys_inv NewSystem"
  by (simp add: sys_inv_def NewSystem_def NewQueue_def)

lemma stored_under_ID:
  assumes "sys_inv s" "job_records (sys_store s) (JobKeyPrefix @ i) = Some j"
  shows "ID j = i"
proof -
  from assms have "JobKeyPrefix @ i = JobKeyPrefix @ ID j"
    unfolding sys_inv_def by blast
  then show ?thesis
    by simp
qed

lemma sys_inv_Enqueue:
  assumes "sys_inv s" "driven (OpEnqueue jobID now req) s"
  shows "sys_inv (sys_step (OpEnqueue jobID now req) s)"
  using assms
  by (auto simp: sys_inv_def Enqueue_def no_faults_def Let_def status_of_def)

lemma sys_inv_Cancel:
  assumes "sys_inv s" "driven (OpCancelJob now jobID) s"
  shows "sys_inv (sys_step (OpCancelJob now jobID) s)"
  using assms
  by (auto simp: sys_inv_def CancelJob_def GetJob_def UpdateJob_def no_faults_def Let_def
      status_of_def distinct_removeAll split: option.splits)

lemma Dequeue_no_faults:
  "Dequeue no_faults now q =
     (if job_queue q = [] then (Inr None, q)
      else (case job_records q (JobKeyPrefix @ last (job_queue q)) of
              None \<Rightarrow> (Inl (ErrDequeueGetJob ErrJobNotFound),
                        q\<lparr>job_queue := butlast (job_queue q)\<rparr>)
            | Some job \<Rightarrow>
                (Inr (Some (job\<lparr>Status := StatusProcessing, StartedAt := Some now\<rparr>)),
                 q\<lparr>job_queue := butlast (job_queue q),
                   job_records := (job_records q)(JobKeyPrefix @ ID job \<mapsto>
                      job\<lparr>Status := StatusProcessing, StartedAt := Some now\<rparr>)\<rparr>)))"
  by (simp add: Dequeue_def GetJob_def UpdateJob_def no_faults_def Let_def
      split: list.splits option.splits)

lemma sys_inv_Dequeue:
  assumes inv: "sys_inv s"
  shows "sys_inv (sys_step (OpDequeue now) s)"
proof (cases "job_queue (sys_store s) = []")
  case True
  with inv show ?thesis
    by (simp add: Dequeue_no_faults sys_inv_def status_of_def)
next
  case False
  define q where "q = sys_store s"
  define i where "i = last (job_queue q)"
  from False have qs: "job_queue q = butlast (job_queue q) @ [i]"
    by (simp add: q_def i_def)
  from inv have d: "distinct (job_queue q)"
    by (simp add: sys_inv_def q_def)
  with qs have notin: "i \<notin> set (butlast (job_queue q))"
    by (metis distinct_append disjoint_iff list.set_intros(1))
  have sub: "set (butlast (job_queue q)) \<subseteq> set (job_queue q)"
    by (metis in_set_butlastD subsetI)
  from qs have "i \<in> set (job_queue q)"
    by (metis in_set_conv_decomp)
  with inv obtain j where j: "job_records q (JobKeyPrefix @ i) = Some j" "Status j = StatusQueued"
    by (auto simp: sys_inv_def q_def status_of_def)
  with inv have idj: "ID j = i"
    by (auto simp: sys_inv_def q_def)
  from inv j have nothd: "i \<notin> ID ` set (sys_held s)"
    by (auto simp: sys_inv_def q_def status_of_def)
  have step: "sys_step (OpDequeue now) s =
      \<lparr>sys_store = q\<lparr>job_queue := butlast (job_queue q),
           job_records := (job_records q)(JobKeyPrefix @ i \<mapsto>
              j\<lparr>Status := StatusProcessing, StartedAt := Some now\<rparr>)\<rparr>,
       sys_held = j\<lparr>Status := StatusProcessing, StartedAt := Some now\<rparr> # sys_held s\<rparr>"
    using False j idj by (simp add: Dequeue_no_faults q_def [symmetric] i_def [symmetric])
  from inv d notin sub nothd idj show ?thesis
    unfolding step by (auto simp: sys_inv_def q_def [symmetric] status_of_def distinct_butlast)
qed

lemma held_same_ID:
  assumes "distinct (map ID hs)" "h \<in> set hs" "job \<in> set hs" "ID h = ID job"
  shows "h = job"
  using assms by (meson distinct_map inj_on_def)

lemma sys_inv_finish:
  assumes inv: "sys_inv s" and held: "job \<in> set (sys_held s)"
    and id: "ID job' = ID job"
    and st: "Status job' \<noteq> StatusQueued"
  shows "sys_inv
      \<lparr>sys_store = (sys_store s)\<lparr>job_records :=
           (job_records (sys_store s))(JobKeyPrefix @ ID job \<mapsto> job'), active_jobs := A\<rparr>,
       sys_held = removeAll job (sys_held s)\<rparr>"
proof -
  from inv held have proc: "status_of (sys_store s) (ID job) = Some StatusProcessing"
    by (simp add: sys_inv_def)
  from inv have qd: "\<forall>i \<in> set (job_queue (sys_store s)). status_of (sys_store s) i = Some StatusQueued"
    by (simp add: sys_inv_def)
  with proc have notq: "ID job \<notin> set (job_queue (sys_store s))"
    by auto
  from inv have dh: "distinct (map ID (sys_held s))"
    by (simp add: sys_inv_def)
  then have dr: "distinct (map ID (removeAll job (sys_held s)))"
    by (simp add: removeAll_filter_not_eq distinct_map_filter)
  have other: "ID h \<noteq> ID job" if "h \<in> set (removeAll job (sys_held s))" for h
    using that held_same_ID [OF dh _ held] by auto
  from inv id show ?thesis
    using notq dr other qd
    by (auto simp: sys_inv_def status_of_def)
qed

lemma sys_inv_Complete:
  assumes "sys_inv s" "driven (OpCompleteJob now job emailList pv ct) s"
  shows "sys_inv (sys_step (OpCompleteJob now job emailList pv ct) s)"
  using sys_inv_finish [OF assms(1), of job
      "job\<lparr>Status := StatusCompleted, CompletedAt := Some now, Emails := emailList,
            PagesVisited := pv, CrawlTime := ct\<rparr>" "active_jobs (sys_store s) - {ID job}"] assms(2)
  by (simp add: CompleteJob_def UpdateJob_def no_faults_def Let_def)

lemma sys_inv_Fail:
  assumes "sys_inv s" "driven (OpFailJob now job msg) s"
  shows "sys_inv (sys_step (OpFailJob now job msg) s)"
  using sys_inv_finish [OF assms(1), of job
      "job\<lparr>Status := StatusFailed, CompletedAt := Some now, Error := msg\<rparr>"
      "active_jobs (sys_store s) - {ID job}"] assms(2)
  by (simp add: FailJob_def UpdateJob_def no_faults_def Let_def)

lemma sys_inv_step:
  assumes "sys_inv s" "driven op s"
  shows "sys_inv (sys_step op s)"
proof (cases op)
  case (OpEnqueue jobID now req)
  with assms show ?thesis
    using sys_inv_Enqueue by simp
next
  case (OpDequeue now)
  with assms show ?thesis
    using sys_inv_Dequeue by simp
next
  case (OpCompleteJob now job emailList pv ct)
  with assms show ?thesis
    using sys_inv_Complete by simp
next
  case (OpFailJob now job msg)
  with assms show ?thesis
    using sys_inv_Fail by simp
next
  case (OpCancelJob now jobID)
  with assms show ?thesis
    using sys_inv_Cancel by simp
next
  case (OpUpdateJob job)
  with assms show ?thesis
    by simp
qed

lemma sys_inv_run:
  assumes "sys_inv s" "sys_run ops s = Some s'"
  shows "sys_inv s'"
  using assms
proof (induction ops arbitrary: s)
  case Nil
  then show ?case by simp
next
  case (Cons op ops)
  from Cons.prems(2) have d: "driven op s" and r: "sys_run ops (sys_step op s) = Some s'"
    by (simp_all split: if_splits)
  from Cons.prems(1) d have "sys_inv (sys_step op s)"
    by (rule sys_inv_step)
  then show ?case
    using r by (rule Cons.IH)
qed

lemma lawful_change_refl: "lawful_change x x"
  by (cases x) simp_all

lemma lawful_step:
  assumes inv: "sys_inv s" and dr: "driven op s"
  shows "lawful_change (job_records (sys_store s) k)
           (job_records (sys_store (sys_step op s)) k)"
proof (cases op)
  case (OpEnqueue jobID now req)
  with dr show ?thesis
    by (simp add: Enqueue_def no_faults_def Let_def lawful_change_refl)
next
  case (OpDequeue now)
  show ?thesis
  proof (cases "job_queue (sys_store s) = []")
    case True
    with OpDequeue show ?thesis
      by (simp add: Dequeue_no_faults lawful_change_refl)
  next
    case False
    then have "last (job_queue (sys_store s)) \<in> set (job_queue (sys_store s))"
      by simp
    with inv obtain j where
      j: "job_records (sys_store s) (JobKeyPrefix @ last (job_queue (sys_store s))) = Some j"
        "Status j = StatusQueued"
      by (auto simp: sys_inv_def status_of_def)
    with inv have "ID j = last (job_queue (sys_store s))"
      using stored_under_ID by blast
    with OpDequeue False j show ?thesis
      by (simp add: Dequeue_no_faults lawful_change_refl job_transitions_def)
  qed
next
  case (OpCompleteJob now job emailList pv ct)
  with dr inv obtain j where
    "job_records (sys_store s) (JobKeyPrefix @ ID job) = Some j" "Status j = StatusProcessing"
    by (auto simp: sys_inv_def status_of_def)
  with OpCompleteJob show ?thesis
    by (simp add: CompleteJob_def UpdateJob_def no_faults_def Let_def lawful_change_refl
        job_transitions_def)
next
  case (OpFailJob now job msg)
  with dr inv obtain j where
    "job_records (sys_store s) (JobKeyPrefix @ ID job) = Some j" "Status j = StatusProcessing"
    by (auto simp: sys_inv_def status_of_def)
  with OpFailJob show ?thesis
    by (simp add: FailJob_def UpdateJob_def no_faults_def Let_def lawful_change_refl
        job_transitions_def)
next
  case (OpCancelJob now jobID)
  show ?thesis
  proof (cases "job_records (sys_store s) (JobKeyPrefix @ jobID)")
    case None
    with OpCancelJob show ?thesis
      by (simp add: CancelJob_def GetJob_def no_faults_def lawful_change_refl)
  next
    case (Some j)
    with inv have "ID j = jobID"
      using stored_under_ID by blast
    moreover from Some dr OpCancelJob have "Status j = StatusQueued \<or> Status j = StatusProcessing"
      by (cases "Status j") (simp_all add: terminal_def)
    ultimately show ?thesis
      using Some OpCancelJob
      by (auto simp: CancelJob_def GetJob_def UpdateJob_def no_faults_def Let_def
          lawful_change_refl job_transitions_def)
  qed
next
  case (OpUpdateJob job)
  with dr show ?thesis
    by simp
qed

text \<open>
  Claim C3, as amended. Let the Job Store be driven as the worker pool and the handlers
  drive it, from the empty store: \<open>Enqueue\<close> with a fresh identifier, \<open>Dequeue\<close>,
  \<open>CompleteJob\<close> or \<open>FailJob\<close> on a handle that \<open>Dequeue\<close> returned and that has not been
  completed or failed yet, and \<open>CancelJob\<close> on a job that is not in a terminal status.
  Then in every step every stored record either stays exactly as it is or moves along
  one of the edges queued to processing, processing to completed, processing to failed,
  queued to cancelled; a new record starts as queued and no record disappears. In
  particular a record in a terminal status is not changed by any such step.
\<close>

theorem job_status_state_machine:
  assumes "sys_run ops NewSystem = Some s" and "driven op s"
  shows "lawful_change (job_records (sys_store s) k)
           (job_records (sys_store (sys_step op s)) k)
         \<and> (\<forall>j. job_records (sys_store s) k = Some j \<and> terminal (Status j)
               \<longrightarrow> job_records (sys_store (sys_step op s)) k = Some j)"
proof -
  from assms(1) have inv: "sys_inv s"
    using sys_inv_run [OF sys_inv_NewSystem] by blast
  from lawful_step [OF inv assms(2), of k]
  have l: "lawful_change (job_records (sys_store s) k)
             (job_records (sys_store (sys_step op s)) k)" .
  have "job_records (sys_store (sys_step op s)) k = Some j"
    if "job_records (sys_store s) k = Some j" "terminal (Status j)" for j
    using l that
    by (cases "job_records (sys_store (sys_step op s)) k")
      (auto simp: job_transitions_def terminal_def)
  with l show ?thesis
    by blast
qed


lemma example_run:
  "sys_run [OpEnqueue ''job-1'' 10 example_request, OpDequeue 20] NewSystem
     = Some \<lparr>sys_store = example_processing, sys_held = [example_handle]\<rparr>"
proof -
  have e: "sys_step (OpEnqueue ''job-1'' 10 example_request) NewSystem
             = \<lparr>sys_store = example_queued, sys_held = []\<rparr>"
    by (simp add: NewSystem_def example_queued_def)
  have i: "ID example_job = ''job-1''"
    by (simp add: example_job_def)
  have d: "sys_step (OpDequeue 20) \<lparr>sys_store = example_queued, sys_held = []\<rparr>
             = \<lparr>sys_store = example_processing, sys_held = [example_handle]\<rparr>"
    by (simp add: Dequeue_no_faults example_queued_eq example_processing_eq example_handle_def i)
  have f: "driven (OpEnqueue ''job-1'' 10 example_request) NewSystem"
    by (simp add: NewSystem_def NewQueue_def)
  from e d f show ?thesis
    by simp
qed

theorem job_status_state_machine_witness:
  "sys_run [OpEnqueue ''job-1'' 10 example_request, OpDequeue 20] NewSystem
     = Some \<lparr>sys_store = example_processing, sys_held = [example_handle]\<rparr>
   \<and> driven (OpCompleteJob 40 example_handle [''a@x.com''] 1 ''20ms'')
        \<lparr>sys_store = example_processing, sys_held = [example_handle]\<rparr>
   \<and> job_records example_processing (JobKeyPrefix @ ''job-1'') = Some example_handle
   \<and> lawful_change (Some example_handle)
        (job_records (sys_store (sys_step (OpCompleteJob 40 example_handle [''a@x.com''] 1 ''20ms'')
           \<lparr>sys_store = example_processing, sys_held = [example_handle]\<rparr>))
           (JobKeyPrefix @ ''job-1''))
   \<and> sys_run [OpEnqueue ''job-1'' 10 example_request, OpDequeue 20,
               OpCompleteJob 40 example_handle [''a@x.com''] 1 ''20ms''] NewSystem
       = Some \<lparr>sys_store = jobStore example_world, sys_held = []\<rparr>
   \<and> driven (OpDequeue 50) \<lparr>sys_store = jobStore example_world, sys_held = []\<rparr>
   \<and> job_records (jobStore example_world) (JobKeyPrefix @ ''job-1'') = Some example_completed
   \<and> terminal (Status example_completed)
   \<and> job_records (sys_store (sys_step (OpDequeue 50)
          \<lparr>sys_store = jobStore example_world, sys_held = []\<rparr>)) (JobKeyPrefix @ ''job-1'')
       = Some example_completed"
proof -
  let ?s1 = "\<lparr>sys_store = example_processing, sys_held = [example_handle]\<rparr>"
  let ?c = "OpCompleteJob 40 example_handle [''a@x.com''] 1 ''20ms''"
  let ?s2 = "\<lparr>sys_store = jobStore example_world, sys_held = []\<rparr>"
  have d1: "driven ?c ?s1"
    by simp
  have r1: "job_records example_processing (JobKeyPrefix @ ''job-1'') = Some example_handle"
    by (simp add: example_processing_eq example_handle_def)
  have i: "ID example_handle = ''job-1''"
    by (simp add: example_handle_def example_job_def)
  have c: "sys_step ?c ?s1 = ?s2"
    by (simp add: CompleteJob_def UpdateJob_def no_faults_def Let_def example_processing_eq
        example_world_def example_completed_def example_handle_def example_job_def)
  from example_run d1 c have run2:
    "sys_run [OpEnqueue ''job-1'' 10 example_request, OpDequeue 20, ?c] NewSystem = Some ?s2"
    by (simp add: NewSystem_def NewQueue_def)
  have d2: "driven (OpDequeue 50) ?s2"
    by simp
  have r2: "job_records (jobStore example_world) (JobKeyPrefix @ ''job-1'') = Some example_completed"
    by (simp add: example_world_def)
  have t: "terminal (Status example_completed)"
    by (simp add: example_completed_def terminal_def)
  from job_status_state_machine [OF example_run d1, of "JobKeyPrefix @ ''job-1''"] r1
  have a: "lawful_change (Some example_handle)
     (job_records (sys_store (sys_step ?c ?s1)) (JobKeyPrefix @ ''job-1''))"
    by simp
  from job_status_state_machine [OF run2 d2, of "JobKeyPrefix @ ''job-1''"] r2 t
  have b: "job_records (sys_store (sys_step (OpDequeue 50) ?s2)) (JobKeyPrefix @ ''job-1'')
       = Some example_completed"
    by simp
  from example_run d1 r1 a run2 d2 r2 t b show ?thesis
    by blast
qed

text \<open>
  The claim as stated, over every sequence of Job Store operations, does not hold: the
  operations do not check for a terminal status. After a job has been completed,
  \<open>CancelJob\<close> makes it cancelled, \<open>FailJob\<close> on the old handle makes it failed, and
  \<open>UpdateJob\<close> with the record as enqueued makes it queued again.
\<close>

theorem terminal_job_changed_counterexample:
  "status_of (run_ops [OpEnqueue ''job-1'' 10 example_request, OpDequeue 20,
        OpCompleteJob 40 example_handle [''a@x.com''] 1 ''20ms''] NewQueue) ''job-1''
     = Some StatusCompleted
   \<and> status_of (run_ops [OpEnqueue ''job-1'' 10 example_request, OpDequeue 20,
        OpCompleteJob 40 example_handle [''a@x.com''] 1 ''20ms'',
        OpCancelJob 50 ''job-1''] NewQueue) ''job-1''
     = Some StatusCancelled
   \<and> status_of (run_ops [OpEnqueue ''job-1'' 10 example_request, OpDequeue 20,
        OpCompleteJob 40 example_handle [''a@x.com''] 1 ''20ms'',
        OpFailJob 50 example_handle ''late''] NewQueue) ''job-1''
     = Some StatusFailed
   \<and> status_of (run_ops [OpEnqueue ''job-1'' 10 example_request, OpDequeue 20,
        OpCompleteJob 40 example_handle [''a@x.com''] 1 ''20ms'',
        OpUpdateJob example_job] NewQueue) ''job-1''
     = Some StatusQueued"
proof -
  have i: "ID example_job = ''job-1''"
    by (simp add: example_job_def)
  have three: "run_ops [OpEnqueue ''job-1'' 10 example_request, OpDequeue 20,
        OpCompleteJob 40 example_handle [''a@x.com''] 1 ''20ms''] NewQueue = jobStore example_world"
    by (simp add: run_ops_def example_queued_def [symmetric] example_processing_def [symmetric]
        example_processing_eq CompleteJob_def UpdateJob_def no_faults_def Let_def
        example_world_def example_completed_def example_handle_def example_job_def)
  have app: "run_ops (ops @ [op]) q = apply_op op (run_ops ops q)" for ops op q
    by (simp add: run_ops_def)
  have c: "status_of (jobStore example_world) ''job-1'' = Some StatusCompleted"
    by (simp add: status_of_def example_world_def example_completed_def)
  have ic: "ID example_completed = ''job-1''"
    by (simp add: example_completed_def i)
  have x: "status_of (apply_op (OpCancelJob 50 ''job-1'') (jobStore example_world)) ''job-1''
     = Some StatusCancelled"
    by (simp add: status_of_def example_world_def CancelJob_def GetJob_def UpdateJob_def
        no_faults_def Let_def ic) (simp add: example_completed_def)
  have f: "status_of (apply_op (OpFailJob 50 example_handle ''late'') (jobStore example_world))
     ''job-1'' = Some StatusFailed"
    by (simp add: status_of_def example_world_def FailJob_def UpdateJob_def
        no_faults_def Let_def example_handle_def i)
  have u: "status_of (apply_op (OpUpdateJob example_job) (jobStore example_world)) ''job-1''
     = Some StatusQueued"
    by (simp add: status_of_def example_world_def UpdateJob_def i) (simp add: example_job_def)
  from app [of "[OpEnqueue ''job-1'' 10 example_request, OpDequeue 20,
        OpCompleteJob 40 example_handle [''a@x.com''] 1 ''20ms'']" _ NewQueue] three c x f u
  show ?thesis
    by simp
qed

section \<open>What the cache stores\<close>

lemma isSpace_ToLowerChar: "isSpace (ToLowerChar c) = isSpace c"
  by (cases c) (auto simp: isSpace_def ToLowerChar_def less_eq_char_def)

lemma dropWhile_isSpace_ToLower:
  "dropWhile isSpace (map ToLowerChar s) = map ToLowerChar (dropWhile isSpace s)"
  by (induction s) (simp_all add: isSpace_ToLowerChar)

lemma TrimSpace_ToLower: "TrimSpace (ToLower s) = ToLower (TrimSpace s)"
proof -
  have "dropWhile isSpace (rev (map ToLowerChar (dropWhile isSpace s)))
          = map ToLowerChar (dropWhile isSpace (rev (dropWhile isSpace s)))"
    using dropWhile_isSpace_ToLower [of "rev (dropWhile isSpace s)"]
    by (simp only: rev_map)
  then show ?thesis
    by (simp add: TrimSpace_def ToLower_def dropWhile_isSpace_ToLower rev_map)
qed

lemma emailMap_fold:
  "fold (\<lambda>email m. let normalizedEmail = TrimSpace (ToLower email)
                    in if normalizedEmail \<noteq> [] then insert normalizedEmail m else m) emailList acc
     = acc \<union> ((\<lambda>e. TrimSpace (ToLower e)) ` set emailList - {[]})"
  by (induction emailList arbitrary: acc) (auto simp: Let_def)

lemma emailMap_eq: "emailMap emailList = (\<lambda>e. TrimSpace (ToLower e)) ` set emailList - {[]}"
  by (simp add: emailMap_def emailMap_fold)

lemma finite_emailMap: "finite (emailMap emailList)"
  by (simp add: emailMap_eq)

lemma isASCII_ToLowerChar: "ToLowerChar c < CHR 0x80 \<longleftrightarrow> c < CHR 0x80"
  by (cases c) (auto simp: ToLowerChar_def less_eq_char_def less_char_def)

lemma isASCII_ToLower: "isASCII (ToLower s) = isASCII s"
  by (induction s) (simp_all add: isASCII_def ToLower_def isASCII_ToLowerChar)

lemma isASCII_TrimSpace: "isASCII s \<Longrightarrow> isASCII (TrimSpace s)"
proof -
  have d: "list_all P (dropWhile Q xs)" if "list_all P xs" for P Q and xs :: "'a list"
    using that set_dropWhileD [of _ Q xs] by (auto simp: list_all_iff)
  assume "isASCII s"
  then have "list_all (\<lambda>c. c < CHR 0x80) (dropWhile isSpace (rev (dropWhile isSpace s)))"
    unfolding isASCII_def by (intro d) (simp add: d)
  then show ?thesis
    by (simp add: isASCII_def TrimSpace_def)
qed

lemma DeduplicateEmails_ASCII:
  assumes "list_all isASCII emailList"
  shows "list_all isASCII (DeduplicateEmails cm emailList)"
proof (cases "DeduplicateEmails_cfg (config cm)")
  case False
  with assms show ?thesis
    by (simp add: DeduplicateEmails_def)
next
  case True
  have "isASCII x" if "x \<in> emailMap emailList" for x
  proof -
    from that obtain e where "e \<in> set emailList" "x = TrimSpace (ToLower e)"
      by (auto simp: emailMap_eq)
    with assms show ?thesis
      by (simp add: list_all_iff isASCII_TrimSpace isASCII_ToLower)
  qed
  with True show ?thesis
    by (simp add: DeduplicateEmails_def list_all_iff finite_emailMap)
qed

text \<open>
  Claim C5, as amended. Let the input be a list of ASCII strings, as the matches of the
  crawler's address pattern are, the cache enabled and the store answering. Then \<open>Set\<close>
  succeeds and a \<open>Get\<close> for the same URL afterwards finds an entry; whatever entry a \<open>Get\<close>
  returns then, its email list is, when the configuration switch \<open>DeduplicateEmails\<close> is on,
  the sorted duplicate-free list of the trimmed, lower-cased inputs that are not empty,
  and, when the switch is off, the input list as it was given. In both cases the stored
  strings are ASCII again, so the entry is what its stored JSON text decodes to.
\<close>

theorem Set_stores_deduplicated_emails:
  assumes "enabled cm" and "list_all isASCII emailList"
  shows "\<exists>cm'. Set parse digest False now rawURL emailList depth pagesVisited cm = (None, cm')
          \<and> Get parse digest False rawURL cm' \<noteq> None
          \<and> (\<forall>fails r. Get parse digest fails rawURL cm' = Some r
                \<longrightarrow> (DeduplicateEmails_cfg (config cm)
                      \<longrightarrow> set (cached_Emails r)
                            = (\<lambda>e. ToLower (TrimSpace e)) ` set emailList - {[]}
                          \<and> sorted (cached_Emails r) \<and> distinct (cached_Emails r))
                    \<and> (\<not> DeduplicateEmails_cfg (config cm) \<longrightarrow> cached_Emails r = emailList)
                    \<and> list_all isASCII (cached_Emails r))"
proof -
  define stored where "stored = DeduplicateEmails cm emailList"
  define cm' where "cm' = cm\<lparr>client := (client cm)(generateKey parse digest rawURL \<mapsto>
      \<lparr>cached_Emails = stored, cached_Timestamp = now, cached_Depth = depth,
       cached_PagesVisited = pagesVisited\<rparr>)\<rparr>"
  from assms(1) have s: "Set parse digest False now rawURL emailList depth pagesVisited cm
      = (None, cm')"
    by (simp add: Set_def Let_def cm'_def stored_def)
  from assms(1) have g: "Get parse digest False rawURL cm' \<noteq> None"
    by (simp add: Get_def Let_def cm'_def)
  have e: "cached_Emails r = stored" if "Get parse digest fails rawURL cm' = Some r" for fails r
    using that assms(1) by (auto simp: Get_def Let_def cm'_def split: if_splits)
  have on: "set stored = (\<lambda>e. ToLower (TrimSpace e)) ` set emailList - {[]}
      \<and> sorted stored \<and> distinct stored" if "DeduplicateEmails_cfg (config cm)"
    using that
    by (simp add: stored_def DeduplicateEmails_def finite_emailMap emailMap_eq TrimSpace_ToLower)
  have off: "stored = emailList" if "\<not> DeduplicateEmails_cfg (config cm)"
    using that by (simp add: stored_def DeduplicateEmails_def)
  have a: "list_all isASCII stored"
    unfolding stored_def using assms(2) by (rule DeduplicateEmails_ASCII)
  from s g e on off a show ?thesis
    by (intro exI [of _ cm']) simp
qed

lemma sorted_list_of_set_is:
  assumes "sorted xs" "distinct xs" "set xs = A"
  shows "sorted_list_of_set A = xs"
  using assms sorted_list_of_set.idem_if_sorted_distinct by blast

lemma example_dedup:
  "DeduplicateEmails example_cache example_emails = [''a@x.com'', ''b@x.com'']"
proof -
  have "emailMap example_emails = {''a@x.com'', ''b@x.com''}"
    by (auto simp: example_emails_def emailMap_def TrimSpace_def ToLower_def ToLowerChar_def
        isSpace_def)
  moreover have "sorted_list_of_set {''a@x.com'', ''b@x.com''} = [''a@x.com'', ''b@x.com'']"
    by (rule sorted_list_of_set_is) auto
  ultimately show ?thesis
    by (simp add: DeduplicateEmails_def example_cache_def example_config_def)
qed

theorem Set_stores_deduplicated_emails_witness:
  "enabled example_cache \<and> DeduplicateEmails_cfg (config example_cache)
   \<and> list_all isASCII example_emails \<and> list_all isASCII raw_emails
   \<and> (\<exists>cm' r. Set url_Parse plain_digest False 100 example_url example_emails 3 2 example_cache
                 = (None, cm')
         \<and> Get url_Parse plain_digest False example_url cm' = Some r
         \<and> cached_Emails r = [''a@x.com'', ''b@x.com'']
         \<and> set (cached_Emails r) = (\<lambda>e. ToLower (TrimSpace e)) ` set example_emails - {[]}
         \<and> sorted (cached_Emails r) \<and> distinct (cached_Emails r))
   \<and> enabled example_cache_raw \<and> \<not> DeduplicateEmails_cfg (config example_cache_raw)
   \<and> (\<exists>cm' r. Set url_Parse plain_digest False 100 example_url raw_emails 3 2 example_cache_raw
                 = (None, cm')
         \<and> Get url_Parse plain_digest False example_url cm' = Some r
         \<and> cached_Emails r = raw_emails)"
proof -
  have en: "enabled example_cache" and dd: "DeduplicateEmails_cfg (config example_cache)"
    by (simp_all add: example_cache_def example_config_def)
  have ae: "list_all isASCII example_emails" and ar: "list_all isASCII raw_emails"
    by (simp_all add: example_emails_def raw_emails_def isASCII_def)
  from Set_stores_deduplicated_emails [OF en ae, of url_Parse plain_digest 100 example_url
      3 2]
  obtain cm' where
    s: "Set url_Parse plain_digest False 100 example_url example_emails 3 2 example_cache
          = (None, cm')"
    and g: "Get url_Parse plain_digest False example_url cm' \<noteq> None"
    and p: "\<forall>fails r. Get url_Parse plain_digest fails example_url cm' = Some r
          \<longrightarrow> (DeduplicateEmails_cfg (config example_cache)
                      \<longrightarrow> set (cached_Emails r)
                            = (\<lambda>e. ToLower (TrimSpace e)) ` set example_emails - {[]}
                          \<and> sorted (cached_Emails r) \<and> distinct (cached_Emails r))
                    \<and> (\<not> DeduplicateEmails_cfg (config example_cache)
                      \<longrightarrow> cached_Emails r = example_emails)
                    \<and> list_all isASCII (cached_Emails r)"
    by (elim exE conjE)
  from g obtain r where r: "Get url_Parse plain_digest False example_url cm' = Some r"
    by (cases "Get url_Parse plain_digest False example_url cm'") simp_all
  from p [rule_format, OF r] dd have q: "set (cached_Emails r)
        = (\<lambda>e. ToLower (TrimSpace e)) ` set example_emails - {[]}
      \<and> sorted (cached_Emails r) \<and> distinct (cached_Emails r)"
    by simp
  from s en have "cm' = example_cache\<lparr>client := (client example_cache)
      (generateKey url_Parse plain_digest example_url \<mapsto>
         \<lparr>cached_Emails = DeduplicateEmails example_cache example_emails, cached_Timestamp = 100,
          cached_Depth = 3, cached_PagesVisited = 2\<rparr>)\<rparr>"
    by (simp add: Set_def Let_def)
  with r en have "cached_Emails r = DeduplicateEmails example_cache example_emails"
    by (auto simp: Get_def Let_def)
  then have e: "cached_Emails r = [''a@x.com'', ''b@x.com'']"
    by (simp only: example_dedup)
  have "Set url_Parse plain_digest False 100 example_url example_emails 3 2 example_cache
                 = (None, cm')
         \<and> Get url_Parse plain_digest False example_url cm' = Some r
         \<and> cached_Emails r = [''a@x.com'', ''b@x.com'']
         \<and> set (cached_Emails r) = (\<lambda>e. ToLower (TrimSpace e)) ` set example_emails - {[]}
         \<and> sorted (cached_Emails r) \<and> distinct (cached_Emails r)"
    using s r e q by simp
  then have on: "\<exists>cm' r. Set url_Parse plain_digest False 100 example_url example_emails 3 2
         example_cache = (None, cm')
         \<and> Get url_Parse plain_digest False example_url cm' = Some r
         \<and> cached_Emails r = [''a@x.com'', ''b@x.com'']
         \<and> set (cached_Emails r) = (\<lambda>e. ToLower (TrimSpace e)) ` set example_emails - {[]}
         \<and> sorted (cached_Emails r) \<and> distinct (cached_Emails r)"
    by (intro exI)
  have enr: "enabled example_cache_raw"
    and ndd: "\<not> DeduplicateEmails_cfg (config example_cache_raw)"
    by (simp_all add: example_cache_raw_def example_cache_def)
  from Set_stores_deduplicated_emails [OF enr ar, of url_Parse plain_digest 100 example_url
      3 2]
  obtain cmr where
    sr: "Set url_Parse plain_digest False 100 example_url raw_emails 3 2 example_cache_raw
          = (None, cmr)"
    and gr: "Get url_Parse plain_digest False example_url cmr \<noteq> None"
    and pr: "\<forall>fails r. Get url_Parse plain_digest fails example_url cmr = Some r
          \<longrightarrow> (DeduplicateEmails_cfg (config example_cache_raw)
                      \<longrightarrow> set (cached_Emails r)
                            = (\<lambda>e. ToLower (TrimSpace e)) ` set raw_emails - {[]}
                          \<and> sorted (cached_Emails r) \<and> distinct (cached_Emails r))
                    \<and> (\<not> DeduplicateEmails_cfg (config example_cache_raw)
                      \<longrightarrow> cached_Emails r = raw_emails)
                    \<and> list_all isASCII (cached_Emails r)"
    by (elim exE conjE)
  from gr obtain rr where rr: "Get url_Parse plain_digest False example_url cmr = Some rr"
    by (cases "Get url_Parse plain_digest False example_url cmr") simp_all
  from pr [rule_format, OF rr] ndd have "cached_Emails rr = raw_emails"
    by simp
  with sr rr have "Set url_Parse plain_digest False 100 example_url raw_emails 3 2
         example_cache_raw = (None, cmr)
         \<and> Get url_Parse plain_digest False example_url cmr = Some rr
         \<and> cached_Emails rr = raw_emails"
    by simp
  then have off: "\<exists>cm' r. Set url_Parse plain_digest False 100 example_url raw_emails 3 2
         example_cache_raw = (None, cm')
         \<and> Get url_Parse plain_digest False example_url cm' = Some r
         \<and> cached_Emails r = raw_emails"
    by (intro exI)
  from en dd ae ar on enr ndd off show ?thesis
    by (intro conjI)
qed

text \<open>
  As stated the claim fails twice: an input that is blank after trimming is dropped, so
  its trimmed version is not in the stored list; and with the switch off the list is
  stored with its case, white space and duplicates.
\<close>

theorem Set_stores_emails_counterexample:
  "map_option cached_Emails
     (Get url_Parse plain_digest False example_url
        (snd (Set url_Parse plain_digest False 100 example_url blank_emails 3 1 example_cache)))
     = Some [''a@x.com'']
   \<and> blank_emails = [''A@x.com'', ''  ''] \<and> ToLower (TrimSpace ''  '') = []
   \<and> map_option cached_Emails
       (Get url_Parse plain_digest False example_url
          (snd (Set url_Parse plain_digest False 100 example_url raw_emails 3 1
                  example_cache_raw)))
     = Some raw_emails
   \<and> raw_emails = ['' B@x.com'', ''a@x.com'', ''a@x.com'']"
proof -
  have "emailMap blank_emails = {''a@x.com''}"
    by (auto simp: blank_emails_def emailMap_def TrimSpace_def ToLower_def ToLowerChar_def
        isSpace_def)
  then have d: "DeduplicateEmails example_cache blank_emails = [''a@x.com'']"
    by (simp add: DeduplicateEmails_def example_cache_def example_config_def)
  have t: "ToLower (TrimSpace ''  '') = []"
    by (simp add: ToLower_def TrimSpace_def isSpace_def)
  have en: "enabled example_cache" "enabled example_cache_raw"
    by (simp_all add: example_cache_def example_cache_raw_def)
  have raw: "DeduplicateEmails example_cache_raw raw_emails = raw_emails"
    by (simp add: DeduplicateEmails_def example_cache_raw_def)
  have one: "map_option cached_Emails
     (Get url_Parse plain_digest False example_url
        (snd (Set url_Parse plain_digest False 100 example_url blank_emails 3 1 example_cache)))
     = Some [''a@x.com'']"
    using d en by (simp add: Set_def Get_def Let_def)
  have two: "map_option cached_Emails
       (Get url_Parse plain_digest False example_url
          (snd (Set url_Parse plain_digest False 100 example_url raw_emails 3 1
                  example_cache_raw)))
     = Some raw_emails"
    using raw en by (simp add: Set_def Get_def Let_def)
  from one two t show ?thesis
    by (simp add: blank_emails_def raw_emails_def)
qed

section \<open>Cache keys\<close>

lemmas url_Parse_defs =
  url_Parse_def getScheme_def parseAuthority_def isCTL_def isLetter_def isDigit_def
  schemeChar_def hostChar_def HasPrefix_def ToLower_def ToLowerChar_def Let_def plain_url_def

lemma parse_url_lower: "url_Parse url_lower = Some (plain_url ''http'' ''example.com'' ''/a'')"
  by (simp add: url_lower_def url_Parse_defs)

lemma parse_url_upper_slash:
  "url_Parse url_upper_slash = Some (plain_url ''http'' ''Example.com'' ''/a/'')"
  by (simp add: url_upper_slash_def url_Parse_defs)

lemma parse_url_path_upper:
  "url_Parse url_path_upper = Some (plain_url ''http'' ''example.com'' ''/A'')"
  by (simp add: url_path_upper_def url_Parse_defs)

lemma parse_url_one_slash:
  "url_Parse url_one_slash = Some (plain_url ''http'' ''example.com'' ''/a/'')"
  by (simp add: url_one_slash_def url_Parse_defs)

lemma parse_url_two_slashes:
  "url_Parse url_two_slashes = Some (plain_url ''http'' ''example.com'' ''/a//'')"
  by (simp add: url_two_slashes_def url_Parse_defs)

lemma parse_url_query_fragment:
  "url_Parse url_query_fragment
     = Some ((plain_url ''http'' ''example.com'' ''/a'')\<lparr>RawQuery := ''x=1'', Fragment := ''top''\<rparr>)"
  by (simp add: url_query_fragment_def url_Parse_defs)

lemma parse_url_userinfo_https:
  "url_Parse url_userinfo_https
     = Some ((plain_url ''https'' ''example.com'' ''/a'')\<lparr>User := Some ''user:pw'', RawQuery := ''y=2''\<rparr>)"
  by (simp add: url_userinfo_https_def url_Parse_defs)

lemma HasSuffix_slash: "HasSuffix s ''/'' \<longleftrightarrow> s \<noteq> [] \<and> last s = CHR ''/''"
  by (cases s rule: rev_cases) (simp_all add: HasSuffix_def)

lemma TrimSuffix_slash:
  "TrimSuffix s ''/'' = (if s \<noteq> [] \<and> last s = CHR ''/'' then butlast s else s)"
  by (cases s rule: rev_cases) (simp_all add: TrimSuffix_def HasSuffix_def)

lemma ToLowerChar_slash: "ToLowerChar c = CHR ''/'' \<longleftrightarrow> c = CHR ''/''"
  by (cases c) (auto simp: ToLowerChar_def less_eq_char_def)

lemma normalizedURL_add_slash:
  assumes "\<not> HasSuffix (Path u1) ''/''" "CHR ''/'' \<notin> set (Host u1)"
    "ToLower (Host u1) = ToLower (Host u2)" "Path u2 = Path u1 @ ''/''"
  shows "normalizedURL u1 = normalizedURL u2"
proof -
  have "last (ToLower (Host u1) @ Path u1) \<noteq> CHR ''/''" if "ToLower (Host u1) @ Path u1 \<noteq> []"
  proof (cases "Path u1 = []")
    case True
    with that have ne: "Host u1 \<noteq> []"
      by (simp add: ToLower_def)
    then have "last (Host u1) \<in> set (Host u1)"
      by simp
    with assms(2) have "last (Host u1) \<noteq> CHR ''/''"
      by metis
    with True ne show ?thesis
      by (simp add: ToLower_def last_map ToLowerChar_slash)
  next
    case False
    with assms(1) show ?thesis
      by (simp add: HasSuffix_slash)
  qed
  then have "normalizedURL u1 = ToLower (Host u1) @ Path u1"
    by (auto simp: normalizedURL_def TrimSuffix_slash)
  moreover have "normalizedURL u2 = ToLower (Host u1) @ Path u1"
    using assms(3,4) by (simp add: normalizedURL_def TrimSuffix_slash butlast_append)
  ultimately show ?thesis
    by simp
qed

lemma normalizedURL_path_case:
  assumes "ToLower (Host u1) = ToLower (Host u2)" "Path u1 \<noteq> Path u2"
    "ToLower (Path u1) = ToLower (Path u2)"
  shows "normalizedURL u1 \<noteq> normalizedURL u2"
proof -
  define h where "h = ToLower (Host u1)"
  define p1 where "p1 = Path u1"
  define p2 where "p2 = Path u2"
  from assms(3) have len: "length p1 = length p2"
    unfolding p1_def p2_def ToLower_def by (rule map_eq_imp_length_eq)
  with assms(2) have ne: "p1 \<noteq> []" "p2 \<noteq> []"
    by (auto simp: p1_def p2_def)
  from assms(3) ne have "ToLowerChar (last p1) = ToLowerChar (last p2)"
    by (metis ToLower_def last_map p1_def p2_def)
  then have sl: "last p1 = CHR ''/'' \<longleftrightarrow> last p2 = CHR ''/''"
    by (metis ToLowerChar_slash)
  have n1: "normalizedURL u1 = (if last p1 = CHR ''/'' then h @ butlast p1 else h @ p1)"
    using ne by (simp add: normalizedURL_def TrimSuffix_slash h_def p1_def butlast_append)
  have n2: "normalizedURL u2 = (if last p2 = CHR ''/'' then h @ butlast p2 else h @ p2)"
    using ne assms(1) by (simp add: normalizedURL_def TrimSuffix_slash h_def p2_def butlast_append)
  show ?thesis
  proof (cases "last p1 = CHR ''/''")
    case True
    with sl have l2: "last p2 = CHR ''/''"
      by simp
    have "butlast p1 \<noteq> butlast p2"
    proof
      assume "butlast p1 = butlast p2"
      with True l2 ne have "p1 = p2"
        by (metis append_butlast_last_id)
      with assms(2) show False
        by (simp add: p1_def p2_def)
    qed
    with True l2 n1 n2 show ?thesis
      by simp
  next
    case False
    with sl n1 n2 assms(2) show ?thesis
      by (simp add: p1_def p2_def)
  qed
qed

text \<open>
  Claim C6, as amended. For two URLs that parse, with hosts equal up to case: the cache
  keys are equal when the paths are equal, and when one path is the other with one slash
  appended to a path that does not itself end in a slash (the host of a parsed URL holds
  no slash). So \<open>HTTP://Example.com/a/\<close> and \<open>http://example.com/a\<close> have the same key.
  The key is not invariant under the case of the path: when the paths differ but agree
  up to case, the normalized URLs handed to the digest differ, so the keys are equal only
  if the digest maps these two different texts to the same value.
\<close>

theorem generateKey_host_case_trailing_slash:
  assumes "parse r1 = Some u1" and "parse r2 = Some u2"
    and "ToLower (Host u1) = ToLower (Host u2)"
  shows "(Path u2 = Path u1
          \<or> Path u2 = Path u1 @ ''/'' \<and> \<not> HasSuffix (Path u1) ''/''
             \<and> CHR ''/'' \<notin> set (Host u1)
          \<longrightarrow> generateKey parse digest r1 = generateKey parse digest r2)
       \<and> (Path u1 \<noteq> Path u2 \<and> ToLower (Path u1) = ToLower (Path u2)
          \<longrightarrow> normalizedURL u1 \<noteq> normalizedURL u2
              \<and> (generateKey parse digest r1 = generateKey parse digest r2
                  \<longleftrightarrow> digest (normalizedURL u1) = digest (normalizedURL u2)))"
proof (intro conjI impI)
  assume "Path u2 = Path u1
          \<or> Path u2 = Path u1 @ ''/'' \<and> \<not> HasSuffix (Path u1) ''/''
             \<and> CHR ''/'' \<notin> set (Host u1)"
  then have "normalizedURL u1 = normalizedURL u2"
  proof
    assume "Path u2 = Path u1"
    with assms(3) show ?thesis
      by (simp add: normalizedURL_def)
  next
    assume "Path u2 = Path u1 @ ''/'' \<and> \<not> HasSuffix (Path u1) ''/''
             \<and> CHR ''/'' \<notin> set (Host u1)"
    with assms(3) show ?thesis
      using normalizedURL_add_slash by blast
  qed
  with assms(1,2) show "generateKey parse digest r1 = generateKey parse digest r2"
    by (simp add: generateKey_def)
next
  assume "Path u1 \<noteq> Path u2 \<and> ToLower (Path u1) = ToLower (Path u2)"
  with assms(3) show "normalizedURL u1 \<noteq> normalizedURL u2"
    using normalizedURL_path_case by blast
next
  from assms(1,2)
  show "generateKey parse digest r1 = generateKey parse digest r2
          \<longleftrightarrow> digest (normalizedURL u1) = digest (normalizedURL u2)"
    by (simp add: generateKey_def)
qed


lemma plain_url_sel:
  "Host (plain_url s h p) = h" "Path (plain_url s h p) = p"
  by (simp_all add: plain_url_def)

theorem generateKey_host_case_trailing_slash_witness:
  "url_Parse url_lower = Some (plain_url ''http'' ''example.com'' ''/a'')
   \<and> url_Parse url_upper_slash = Some (plain_url ''http'' ''Example.com'' ''/a/'')
   \<and> url_Parse url_path_upper = Some (plain_url ''http'' ''example.com'' ''/A'')
   \<and> url_upper_slash = ''HTTP://Example.com/a/'' \<and> url_lower = ''http://example.com/a''
   \<and> generateKey url_Parse plain_digest url_upper_slash = generateKey url_Parse plain_digest url_lower
   \<and> normalizedURL (plain_url ''http'' ''example.com'' ''/a'')
       \<noteq> normalizedURL (plain_url ''http'' ''example.com'' ''/A'')
   \<and> generateKey url_Parse plain_digest url_lower
       \<noteq> generateKey url_Parse plain_digest url_path_upper"
proof -
  let ?a = "plain_url ''http'' ''example.com'' ''/a''"
  let ?b = "plain_url ''http'' ''Example.com'' ''/a/''"
  let ?c = "plain_url ''http'' ''example.com'' ''/A''"
  have hab: "ToLower (Host ?a) = ToLower (Host ?b)"
    by (simp add: plain_url_sel ToLower_def ToLowerChar_def)
  have hac: "ToLower (Host ?a) = ToLower (Host ?c)"
    by (simp add: plain_url_sel)
  have pab: "Path ?b = Path ?a @ ''/'' \<and> \<not> HasSuffix (Path ?a) ''/''
       \<and> CHR ''/'' \<notin> set (Host ?a)"
    by (simp add: plain_url_sel HasSuffix_def)
  have pac: "Path ?a \<noteq> Path ?c \<and> ToLower (Path ?a) = ToLower (Path ?c)"
    by (simp add: plain_url_sel ToLower_def ToLowerChar_def)
  from generateKey_host_case_trailing_slash
    [OF parse_url_lower parse_url_upper_slash hab, of plain_digest] pab
  have same: "generateKey url_Parse plain_digest url_upper_slash = generateKey url_Parse plain_digest url_lower"
    by simp
  from generateKey_host_case_trailing_slash
    [OF parse_url_lower parse_url_path_upper hac, of plain_digest] pac
  have diff: "normalizedURL ?a \<noteq> normalizedURL ?c"
    and iff: "generateKey url_Parse plain_digest url_lower
        = generateKey url_Parse plain_digest url_path_upper
       \<longleftrightarrow> plain_digest (normalizedURL ?a) = plain_digest (normalizedURL ?c)"
    by simp_all
  from diff iff have keys: "generateKey url_Parse plain_digest url_lower
       \<noteq> generateKey url_Parse plain_digest url_path_upper"
    by (simp add: plain_digest_def)
  from parse_url_lower parse_url_upper_slash parse_url_path_upper same diff keys
  show ?thesis
    by (simp add: url_upper_slash_def url_lower_def)
qed

text \<open>
  Only one trailing slash is stripped. As stated, for every URL, the claim fails: adding
  one slash to a path that already ends in one changes the normalized URL, and with it
  the key (shown for a digest that keeps different texts apart).
\<close>

theorem generateKey_second_slash_counterexample:
  "url_one_slash = ''http://example.com/a/'' \<and> url_two_slashes = ''http://example.com/a//''
   \<and> map_option normalizedURL (url_Parse url_one_slash) = Some ''example.com/a''
   \<and> map_option normalizedURL (url_Parse url_two_slashes) = Some ''example.com/a/''
   \<and> generateKey url_Parse plain_digest url_one_slash
       \<noteq> generateKey url_Parse plain_digest url_two_slashes"
proof -
  have n1: "normalizedURL (plain_url ''http'' ''example.com'' ''/a/'') = ''example.com/a''"
    by (simp add: normalizedURL_def plain_url_sel TrimSuffix_slash ToLower_def ToLowerChar_def)
  have n2: "normalizedURL (plain_url ''http'' ''example.com'' ''/a//'') = ''example.com/a/''"
    by (simp add: normalizedURL_def plain_url_sel TrimSuffix_slash ToLower_def ToLowerChar_def)
  have "generateKey url_Parse plain_digest url_one_slash
       \<noteq> generateKey url_Parse plain_digest url_two_slashes"
    by (simp add: generateKey_def parse_url_one_slash parse_url_two_slashes n1 n2
        plain_digest_def)
  with n1 n2 show ?thesis
    by (simp add: parse_url_one_slash parse_url_two_slashes)
      (simp add: url_one_slash_def url_two_slashes_def)
qed

text \<open>
  Claim C10. The key is made of the lower-cased host and the path alone. For two URLs
  that parse with the same host and the same path, whatever their scheme, user
  information, query and fragment are, the keys are equal, \<open>Get\<close> gives the same answer for
  both on every cache, \<open>Set\<close> under either writes the same entry, and with the cache
  enabled and the store answering a \<open>Set\<close> under the one is served by a \<open>Get\<close> under the
  other.
\<close>

theorem cache_entry_ignores_scheme_userinfo_query_fragment:
  assumes "parse r1 = Some u1" and "parse r2 = Some u2"
    and "Host u2 = Host u1" and "Path u2 = Path u1"
  shows "generateKey parse digest r1 = generateKey parse digest r2
         \<and> Get parse digest fails r2 cm = Get parse digest fails r1 cm
         \<and> (enabled cm
             \<longrightarrow> (\<exists>cm'. Set parse digest False now r1 emailList depth pagesVisited cm = (None, cm')
                   \<and> Set parse digest False now r2 emailList depth pagesVisited cm = (None, cm')
                   \<and> Get parse digest False r2 cm'
                       = Some \<lparr>cached_Emails = DeduplicateEmails cm emailList,
                               cached_Timestamp = now, cached_Depth = depth,
                               cached_PagesVisited = pagesVisited\<rparr>))"
proof -
  from assms have k: "generateKey parse digest r1 = generateKey parse digest r2"
    by (simp add: generateKey_def normalizedURL_def)
  then show ?thesis
    by (simp add: Get_def Set_def Let_def)
qed

theorem cache_entry_ignores_scheme_userinfo_query_fragment_witness:
  "url_query_fragment = ''http://example.com/a?x=1#top''
   \<and> url_userinfo_https = ''https://user:pw@example.com/a?y=2''
   \<and> url_Parse url_query_fragment
       = Some ((plain_url ''http'' ''example.com'' ''/a'')\<lparr>RawQuery := ''x=1'', Fragment := ''top''\<rparr>)
   \<and> url_Parse url_userinfo_https
       = Some ((plain_url ''https'' ''example.com'' ''/a'')\<lparr>User := Some ''user:pw'', RawQuery := ''y=2''\<rparr>)
   \<and> enabled example_cache
   \<and> generateKey url_Parse plain_digest url_query_fragment
       = generateKey url_Parse plain_digest url_userinfo_https
   \<and> map_option cached_Emails
        (Get url_Parse plain_digest False url_userinfo_https
           (snd (Set url_Parse plain_digest False 100 url_query_fragment example_emails 3 2
              example_cache)))
       = Some [''a@x.com'', ''b@x.com'']"
proof -
  let ?u1 = "(plain_url ''http'' ''example.com'' ''/a'')\<lparr>RawQuery := ''x=1'', Fragment := ''top''\<rparr>"
  let ?u2 = "(plain_url ''https'' ''example.com'' ''/a'')\<lparr>User := Some ''user:pw'', RawQuery := ''y=2''\<rparr>"
  have h: "Host ?u2 = Host ?u1" and p: "Path ?u2 = Path ?u1"
    by (simp_all add: plain_url_def)
  have en: "enabled example_cache"
    by (simp add: example_cache_def)
  from cache_entry_ignores_scheme_userinfo_query_fragment
    [OF parse_url_query_fragment parse_url_userinfo_https h p,
      of plain_digest False example_cache 100 example_emails 3 2] en
  obtain cm' where k: "generateKey url_Parse plain_digest url_query_fragment
       = generateKey url_Parse plain_digest url_userinfo_https"
    and s: "Set url_Parse plain_digest False 100 url_query_fragment example_emails 3 2 example_cache
       = (None, cm')"
    and g: "Get url_Parse plain_digest False url_userinfo_https cm'
       = Some \<lparr>cached_Emails = DeduplicateEmails example_cache example_emails,
               cached_Timestamp = 100, cached_Depth = 3, cached_PagesVisited = 2\<rparr>"
    by (elim conjE impE exE) simp_all
  from s g have "map_option cached_Emails
        (Get url_Parse plain_digest False url_userinfo_https
           (snd (Set url_Parse plain_digest False 100 url_query_fragment example_emails 3 2
              example_cache)))
       = Some [''a@x.com'', ''b@x.com'']"
    by (simp add: example_dedup)
  with k en parse_url_query_fragment parse_url_userinfo_https show ?thesis
    by (simp add: url_query_fragment_def url_userinfo_https_def)
qed

section \<open>Invariants of the traversal\<close>

lemma extends_refl: "extends env c c"
  by (simp add: extends_def)

lemma extends_trans:
  assumes "extends env c c1" "extends env c1 c2"
  shows "extends env c c2"
proof -
  let ?s = "\<lambda>x. url_String env (fst x)"
  from assms(1) obtain n1 where 1: "baseURL c1 = baseURL c" "maxDepth c1 = maxDepth c"
    "crawlLog c1 = crawlLog c @ n1" "visited c1 = visited c \<union> set (map ?s n1)"
    "distinct (map ?s n1)"
    "\<forall>x \<in> set n1. ?s x \<notin> visited c \<and> snd x \<le> maxDepth c
         \<and> (\<forall>b. baseURL c = Some b \<longrightarrow> Host (fst x) = Host b)"
    unfolding extends_def by blast
  from assms(2) obtain n2 where 2: "baseURL c2 = baseURL c1" "maxDepth c2 = maxDepth c1"
    "crawlLog c2 = crawlLog c1 @ n2" "visited c2 = visited c1 \<union> set (map ?s n2)"
    "distinct (map ?s n2)"
    "\<forall>x \<in> set n2. ?s x \<notin> visited c1 \<and> snd x \<le> maxDepth c1
         \<and> (\<forall>b. baseURL c1 = Some b \<longrightarrow> Host (fst x) = Host b)"
    unfolding extends_def by blast
  have a: "crawlLog c2 = crawlLog c @ (n1 @ n2)"
    using 1(3) 2(3) by simp
  have b: "visited c2 = visited c \<union> set (map ?s (n1 @ n2))"
    using 1(4) 2(4) by auto
  have "set (map ?s n1) \<inter> set (map ?s n2) = {}"
  proof (rule equals0I)
    fix y assume "y \<in> set (map ?s n1) \<inter> set (map ?s n2)"
    then have y1: "y \<in> ?s ` set n1" and y2: "y \<in> ?s ` set n2"
      by simp_all
    from y2 obtain x where x: "x \<in> set n2" "y = ?s x"
      by (rule imageE)
    from 2(6) x(1) have "?s x \<notin> visited c1"
      by blast
    with 1(4) x(2) y1 show False
      by simp
  qed
  with 1(5) 2(5) have d: "distinct (map ?s (n1 @ n2))"
    by simp
  have e: "\<forall>x \<in> set (n1 @ n2). ?s x \<notin> visited c \<and> snd x \<le> maxDepth c
         \<and> (\<forall>b. baseURL c = Some b \<longrightarrow> Host (fst x) = Host b)"
    using 1(1,2,4,6) 2(6) by auto
  from 1(1,2) 2(1,2) a b d e show ?thesis
    unfolding extends_def by (intro conjI exI [of _ "n1 @ n2"]) simp_all
qed

lemma extends_visit:
  assumes "\<not> (depth > maxDepth c \<or> url_String env u \<in> visited c)"
    "baseURL c = Some base" "Host u = Host base"
  shows "extends env c (c\<lparr>visited := insert (url_String env u) (visited c),
                          crawlLog := crawlLog c @ [(u, depth)]\<rparr>)"
  using assms unfolding extends_def by (intro conjI exI [of _ "[(u, depth)]"]) simp_all

lemma extends_emails: "extends env c (c\<lparr>emails := E\<rparr>)"
  by (simp add: extends_def)

lemma crawl_extends:
  "extends env c (state_of (crawlRecursive env n u depth c))"
  "extends env c (state_of (crawlLinks env n u depth links c))"
proof (induction env n u depth c and env n u depth links c
    rule: crawlRecursive_crawlLinks.induct)
  case (1 env u depth c)
  show ?case
    by (simp add: extends_refl)
next
  case (2 env n u depth c)
  show ?case
  proof (cases "depth > maxDepth c \<or> url_String env u \<in> visited c")
    case True
    then show ?thesis
      by (simp add: extends_refl)
  next
    case guard: False
    show ?thesis
    proof (cases "baseURL c")
      case None
      with guard show ?thesis
        by (simp add: extends_refl)
    next
      case (Some base)
      show ?thesis
      proof (cases "Host u = Host base")
        case False
        with guard Some show ?thesis
          by (simp add: extends_refl)
      next
        case host: True
        then have nh: "\<not> Host u \<noteq> Host base"
          by simp
        define c1 where "c1 = c\<lparr>visited := insert (url_String env u) (visited c),
                                 crawlLog := crawlLog c @ [(u, depth)]\<rparr>"
        have e1: "extends env c c1"
          unfolding c1_def using guard Some host by (rule extends_visit)
        show ?thesis
        proof (cases "fetch env (url_String env u)")
          case None
          with guard Some host e1 show ?thesis
            by (simp add: c1_def)
        next
          case doc: (Some doc)
          define r where "r = (if metaRefresh doc \<noteq> []
                                then parseMetaRefresh env (metaRefresh doc) u else None)"
          show ?thesis
          proof (cases r)
            case None
            define c2 where "c2 = c1\<lparr>emails := emails c1
                \<union> strings_ToLower env ` set (emailRegex_FindAllString env (bodyText doc))\<rparr>"
            have "extends env c2 (state_of (crawlLinks env n u depth (hrefs doc) c2))"
              unfolding c2_def
              by (rule "2.IH"(1) [OF guard \<open>baseURL c = Some base\<close> nh c1_def doc
                    None [unfolded r_def]])
            moreover have "extends env c c2"
              unfolding c2_def using e1 extends_emails extends_trans by blast
            ultimately have "extends env c (state_of (crawlLinks env n u depth (hrefs doc) c2))"
              by (rule extends_trans [rotated])
            with guard Some host doc None show ?thesis
              by (simp add: r_def c1_def c2_def Let_def)
          next
            case (Some t)
            have "extends env c1 (state_of (crawlRecursive env n t depth c1))"
              by (rule "2.IH"(2) [OF guard \<open>baseURL c = Some base\<close> nh c1_def doc
                    Some [unfolded r_def]])
            with e1 have "extends env c (state_of (crawlRecursive env n t depth c1))"
              by (rule extends_trans)
            with guard \<open>baseURL c = Some base\<close> host doc Some show ?thesis
              by (simp add: r_def c1_def Let_def)
          qed
        qed
      qed
    qed
  qed
next
  case (3 env n u depth c)
  show ?case
    by (simp add: extends_refl)
next
  case (4 env n u depth href rest c)
  show ?case
  proof (cases "resolveURL env u href")
    case None
    with "4.IH"(1) show ?thesis
      by simp
  next
    case (Some nextURL)
    define d where "d = (if isContactLink env (Path nextURL) then depth else depth + 1)"
    have step: "extends env c (state_of (crawlRecursive env n nextURL d c))"
      using "4.IH"(2) [OF Some] by (simp add: d_def)
    show ?thesis
    proof (cases "crawlRecursive env n nextURL d c")
      case (Done c')
      with step have "extends env c c'"
        by simp
      moreover have "extends env c' (state_of (crawlLinks env n u depth rest c'))"
        using "4.IH"(3) [OF Some] Done by (simp add: d_def)
      ultimately have "extends env c (state_of (crawlLinks env n u depth rest c'))"
        by (rule extends_trans)
      with Some Done show ?thesis
        by (simp add: d_def)
    next
      case (OutOfFuel c')
      with step Some show ?thesis
        by (simp add: d_def)
    next
      case (Panic c')
      with step Some show ?thesis
        by (simp add: d_def)
    qed
  qed
qed

section \<open>Hosts and visited URLs\<close>

lemma Crawl_extends:
  "extends env ((New md)\<lparr>baseURL := Some startURL\<rparr>)
     (state_of (Crawl env fuel (New md) startURL))"
  unfolding Crawl_def by (rule crawl_extends(1))

lemma Crawl_log:
  obtains new where
    "crawlLog (state_of (Crawl env fuel (New md) startURL)) = new"
    "visited (state_of (Crawl env fuel (New md) startURL)) = set (map (\<lambda>x. url_String env (fst x)) new)"
    "distinct (map (\<lambda>x. url_String env (fst x)) new)"
    "\<forall>x \<in> set new. snd x \<le> md \<and> Host (fst x) = Host startURL"
proof -
  from Crawl_extends [where env = env and md = md and startURL = startURL and fuel = fuel]
  obtain new where
    "crawlLog (state_of (Crawl env fuel (New md) startURL))
       = crawlLog ((New md)\<lparr>baseURL := Some startURL\<rparr>) @ new"
    "visited (state_of (Crawl env fuel (New md) startURL))
       = visited ((New md)\<lparr>baseURL := Some startURL\<rparr>) \<union> set (map (\<lambda>x. url_String env (fst x)) new)"
    "distinct (map (\<lambda>x. url_String env (fst x)) new)"
    "\<forall>x \<in> set new. url_String env (fst x) \<notin> visited ((New md)\<lparr>baseURL := Some startURL\<rparr>)
        \<and> snd x \<le> maxDepth ((New md)\<lparr>baseURL := Some startURL\<rparr>)
        \<and> (\<forall>b. baseURL ((New md)\<lparr>baseURL := Some startURL\<rparr>) = Some b \<longrightarrow> Host (fst x) = Host b)"
    unfolding extends_def by blast
  then show ?thesis
    using that [of new] by (simp add: New_def)
qed

text \<open>
  Claim C1. In every crawl, however far it gets, every URL that reaches the fetch has
  the host of the start URL; and a candidate whose host differs from the host of the base
  URL is turned away with the crawler unchanged, so nothing is fetched for it.
\<close>

theorem crawl_stays_on_start_host:
  "(\<forall>x \<in> set (crawlLog (state_of (Crawl env fuel (New md) startURL))).
       Host (fst x) = Host startURL)
   \<and> (baseURL c = Some startURL \<and> Host u \<noteq> Host startURL
        \<longrightarrow> crawlRecursive env (Suc n) u depth c = Done c)"
proof
  show "\<forall>x \<in> set (crawlLog (state_of (Crawl env fuel (New md) startURL))).
       Host (fst x) = Host startURL"
    by (rule Crawl_log [of env fuel md startURL]) simp
  show "baseURL c = Some startURL \<and> Host u \<noteq> Host startURL
        \<longrightarrow> crawlRecursive env (Suc n) u depth c = Done c"
    by simp
qed

text \<open>
  Claim C2, as amended. In every crawl no two fetched URLs have the same URL text
  (\<open>u.String()\<close>, which is what the visited set is keyed by), and the visited set is
  exactly the set of the texts fetched; a candidate whose text is already in the visited
  set is turned away with the crawler unchanged.
\<close>

theorem crawl_fetches_each_URL_text_once:
  "distinct (map (\<lambda>x. url_String env (fst x))
      (crawlLog (state_of (Crawl env fuel (New md) startURL))))
   \<and> visited (state_of (Crawl env fuel (New md) startURL))
       = set (map (\<lambda>x. url_String env (fst x))
           (crawlLog (state_of (Crawl env fuel (New md) startURL))))
   \<and> (url_String env u \<in> visited c \<longrightarrow> crawlRecursive env (Suc n) u depth c = Done c)"
proof (intro conjI)
  show "distinct (map (\<lambda>x. url_String env (fst x))
      (crawlLog (state_of (Crawl env fuel (New md) startURL))))"
    by (rule Crawl_log [of env fuel md startURL]) simp
  show "visited (state_of (Crawl env fuel (New md) startURL))
       = set (map (\<lambda>x. url_String env (fst x))
           (crawlLog (state_of (Crawl env fuel (New md) startURL))))"
    by (rule Crawl_log [of env fuel md startURL]) simp
  show "url_String env u \<in> visited c \<longrightarrow> crawlRecursive env (Suc n) u depth c = Done c"
    by simp
qed

section \<open>Links and redirects\<close>

lemma extends_log_prefix:
  assumes "extends env c c'"
  shows "prefix (crawlLog c) (crawlLog c')"
  using assms unfolding extends_def by auto

lemma crawlRecursive_entered:
  assumes "depth \<le> maxDepth c" "url_String env u \<notin> visited c"
    "baseURL c = Some base" "Host u = Host base"
  shows "extends env
           (c\<lparr>visited := insert (url_String env u) (visited c),
               crawlLog := crawlLog c @ [(u, depth)]\<rparr>)
           (state_of (crawlRecursive env (Suc n) u depth c))"
proof -
  define c1 where "c1 = c\<lparr>visited := insert (url_String env u) (visited c),
                           crawlLog := crawlLog c @ [(u, depth)]\<rparr>"
  show ?thesis
  proof (cases "fetch env (url_String env u)")
    case None
    with assms show ?thesis
      by (simp add: extends_refl)
  next
    case (Some doc)
    show ?thesis
    proof (cases "if metaRefresh doc \<noteq> [] then parseMetaRefresh env (metaRefresh doc) u
                  else None")
      case None
      have "extends env c1 (c1\<lparr>emails := emails c1
              \<union> strings_ToLower env ` set (emailRegex_FindAllString env (bodyText doc))\<rparr>)"
        by (rule extends_emails)
      then have "extends env c1 (state_of (crawlLinks env n u depth (hrefs doc)
           (c1\<lparr>emails := emails c1
              \<union> strings_ToLower env ` set (emailRegex_FindAllString env (bodyText doc))\<rparr>)))"
        using crawl_extends(2) extends_trans by blast
      with assms Some None show ?thesis
        by (simp add: c1_def Let_def)
    next
      case redirect: (Some t)
      have "extends env c1 (state_of (crawlRecursive env n t depth c1))"
        by (rule crawl_extends(1))
      with assms Some redirect show ?thesis
        by (simp add: c1_def Let_def)
    qed
  qed
qed

lemma crawlLinks_extends_after:
  assumes "resolveURL env u href = Some nextURL"
  shows "extends env
           (state_of (crawlRecursive env n nextURL
              (if isContactLink env (Path nextURL) then depth else depth + 1) c))
           (state_of (crawlLinks env n u depth (href # rest) c))"
proof (cases "crawlRecursive env n nextURL
              (if isContactLink env (Path nextURL) then depth else depth + 1) c")
  case (Done c')
  with assms show ?thesis
    by (simp add: crawl_extends(2))
next
  case (OutOfFuel c')
  with assms show ?thesis
    by (simp add: extends_refl)
next
  case (Panic c')
  with assms show ?thesis
    by (simp add: extends_refl)
qed

lemma HasPrefix_iff: "HasPrefix s p \<longleftrightarrow> (\<exists>post. s = p @ post)"
proof
  assume "HasPrefix s p"
  then have "s = p @ drop (length p) s"
    by (metis HasPrefix_def append_take_drop_id)
  then show "\<exists>post. s = p @ post" ..
next
  assume "\<exists>post. s = p @ post"
  then show "HasPrefix s p"
    by (auto simp: HasPrefix_def)
qed

lemma Contains_iff: "Contains s sub \<longleftrightarrow> (\<exists>pre post. s = pre @ sub @ post)"
proof (induction s)
  case Nil
  show ?case
    by simp
next
  case (Cons c cs)
  have "(\<exists>pre post. c # cs = pre @ sub @ post)
      \<longleftrightarrow> (\<exists>post. c # cs = sub @ post) \<or> (\<exists>pre post. cs = pre @ sub @ post)"
  proof
    assume "\<exists>pre post. c # cs = pre @ sub @ post"
    then obtain pre post where e: "c # cs = pre @ sub @ post"
      by blast
    show "(\<exists>post. c # cs = sub @ post) \<or> (\<exists>pre post. cs = pre @ sub @ post)"
    proof (cases pre)
      case Nil
      with e show ?thesis
        by auto
    next
      case (Cons a pre')
      with e have "cs = pre' @ sub @ post"
        by simp
      then show ?thesis
        by blast
    qed
  next
    assume "(\<exists>post. c # cs = sub @ post) \<or> (\<exists>pre post. cs = pre @ sub @ post)"
    then show "\<exists>pre post. c # cs = pre @ sub @ post"
    proof
      assume "\<exists>post. c # cs = sub @ post"
      then obtain post where "c # cs = [] @ sub @ post"
        by auto
      then show ?thesis
        by blast
    next
      assume "\<exists>pre post. cs = pre @ sub @ post"
      then obtain pre post where "c # cs = (c # pre) @ sub @ post"
        by auto
      then show ?thesis
        by blast
    qed
  qed
  with Cons.IH show ?case
    by (simp add: HasPrefix_iff)
qed

lemma isContactLink_iff:
  "isContactLink env path
     \<longleftrightarrow> (\<exists>keyword \<in> set contactKeywords.
           \<exists>pre post. strings_ToLower env path = pre @ keyword @ post)"
  by (simp add: isContactLink_def list_ex_iff Contains_iff)

text \<open>
  Claim C8. Let a hyperlink of the page \<open>u\<close>, processed at depth \<open>depth\<close>, resolve to
  \<open>nextURL\<close>, and let \<open>d\<close> be \<open>depth\<close> if the keyword classifier matches the path of
  \<open>nextURL\<close> and \<open>depth + 1\<close> otherwise. Then the link loop calls \<open>crawlRecursive\<close> for
  \<open>nextURL\<close> at depth \<open>d\<close> and goes on with the remaining links when that call returns.
  If \<open>d\<close> exceeds \<open>maxDepth\<close> the candidate is turned away and the loop goes on in the same
  state. Otherwise, if the candidate is new and on the base host, the next fetch of the
  crawl is \<open>nextURL\<close>, at depth \<open>d\<close>. The classifier matches exactly when some keyword of
  the fixed list occurs in the path as \<open>strings.ToLower\<close> returns it, so two paths that
  differ only in case, having the same lower-cased text, are classified alike. This holds
  for every path, whatever its bytes, \<open>strings.ToLower\<close> being the library's function.
  No URL is ever fetched at a depth beyond \<open>maxDepth\<close>.
\<close>

theorem link_depth_by_keyword:
  assumes "resolveURL env u href = Some nextURL" and "baseURL c = Some base"
    and "d = (if isContactLink env (Path nextURL) then depth else depth + 1)"
  shows "crawlLinks env n u depth (href # rest) c
           = (case crawlRecursive env n nextURL d c of
                Done c' \<Rightarrow> crawlLinks env n u depth rest c'
              | OutOfFuel c' \<Rightarrow> OutOfFuel c'
              | Panic c' \<Rightarrow> Panic c')
         \<and> (d > maxDepth c
            \<longrightarrow> crawlLinks env (Suc n) u depth (href # rest) c
                = crawlLinks env (Suc n) u depth rest c)
         \<and> (d \<le> maxDepth c \<and> url_String env nextURL \<notin> visited c \<and> Host nextURL = Host base
            \<longrightarrow> prefix (crawlLog c @ [(nextURL, d)])
                  (crawlLog (state_of (crawlLinks env (Suc n) u depth (href # rest) c))))
         \<and> (isContactLink env path
            \<longleftrightarrow> (\<exists>keyword \<in> set contactKeywords.
                   \<exists>pre post. strings_ToLower env path = pre @ keyword @ post))
         \<and> (strings_ToLower env path = strings_ToLower env path'
            \<longrightarrow> isContactLink env path = isContactLink env path')
         \<and> (\<forall>x \<in> set (crawlLog (state_of (Crawl env fuel (New md) startURL))). snd x \<le> md)"
proof (intro conjI impI)
  from assms(1,3) show "crawlLinks env n u depth (href # rest) c
           = (case crawlRecursive env n nextURL d c of
                Done c' \<Rightarrow> crawlLinks env n u depth rest c'
              | OutOfFuel c' \<Rightarrow> OutOfFuel c'
              | Panic c' \<Rightarrow> Panic c')"
    by simp
next
  assume "strings_ToLower env path = strings_ToLower env path'"
  then show "isContactLink env path = isContactLink env path'"
    by (simp add: isContactLink_def)
next
  assume "d > maxDepth c"
  with assms(1,3) show "crawlLinks env (Suc n) u depth (href # rest) c
                = crawlLinks env (Suc n) u depth rest c"
    by simp
next
  assume a: "d \<le> maxDepth c \<and> url_String env nextURL \<notin> visited c \<and> Host nextURL = Host base"
  define c1 where "c1 = c\<lparr>visited := insert (url_String env nextURL) (visited c),
                           crawlLog := crawlLog c @ [(nextURL, d)]\<rparr>"
  from a assms(2) have "extends env c1 (state_of (crawlRecursive env (Suc n) nextURL d c))"
    unfolding c1_def by (intro crawlRecursive_entered) simp_all
  moreover have "extends env (state_of (crawlRecursive env (Suc n) nextURL d c))
           (state_of (crawlLinks env (Suc n) u depth (href # rest) c))"
    unfolding assms(3) using assms(1) by (rule crawlLinks_extends_after)
  ultimately have "extends env c1 (state_of (crawlLinks env (Suc n) u depth (href # rest) c))"
    by (rule extends_trans)
  then have "prefix (crawlLog c1)
      (crawlLog (state_of (crawlLinks env (Suc n) u depth (href # rest) c)))"
    by (rule extends_log_prefix)
  then show "prefix (crawlLog c @ [(nextURL, d)])
                  (crawlLog (state_of (crawlLinks env (Suc n) u depth (href # rest) c)))"
    by (simp add: c1_def)
next
  show "isContactLink env path
            \<longleftrightarrow> (\<exists>keyword \<in> set contactKeywords.
                   \<exists>pre post. strings_ToLower env path = pre @ keyword @ post)"
    by (rule isContactLink_iff)
next
  show "\<forall>x \<in> set (crawlLog (state_of (Crawl env fuel (New md) startURL))). snd x \<le> md"
    by (rule Crawl_log [of env fuel md startURL]) simp
qed

lemma crawlRecursive_redirect:
  assumes "depth \<le> maxDepth c" "url_String env u \<notin> visited c"
    "baseURL c = Some base" "Host u = Host base" "redirects_to env u t"
  shows "crawlRecursive env (Suc n) u depth c
         = crawlRecursive env n t depth
             (c\<lparr>visited := insert (url_String env u) (visited c),
                 crawlLog := crawlLog c @ [(u, depth)]\<rparr>)"
  using assms by (auto simp: redirects_to_def Let_def split: option.splits)

text \<open>
  Claim C7. A page that is fetched at depth \<open>depth\<close> and declares a meta-refresh that
  resolves makes the crawler continue with the target at the same depth, and with nothing
  else done for the page: no email taken, no hyperlink processed. Along a chain of such
  pages on the base host, none of them visited before, the crawl of the first page is the
  crawl of the chain's end at the same depth \<open>depth\<close>, from the state in which just the
  pages of the chain are marked visited and logged.
\<close>

theorem redirect_followed_at_same_depth:
  assumes "redirect_chain env (u # us) t"
    and "baseURL c = Some base" and "depth \<le> maxDepth c"
    and "distinct (map (url_String env) (u # us))"
    and "\<forall>v \<in> set (u # us). url_String env v \<notin> visited c \<and> Host v = Host base"
  shows "crawlRecursive env (Suc (length us + n)) u depth c
         = crawlRecursive env n t depth
             (c\<lparr>visited := visited c \<union> url_String env ` set (u # us),
                 crawlLog := crawlLog c @ map (\<lambda>v. (v, depth)) (u # us)\<rparr>)"
  using assms
proof (induction us arbitrary: u c)
  case Nil
  then show ?case
    using crawlRecursive_redirect [of depth c env u base t n] by simp
next
  case (Cons v vs)
  define c1 where "c1 = c\<lparr>visited := insert (url_String env u) (visited c),
                           crawlLog := crawlLog c @ [(u, depth)]\<rparr>"
  from Cons.prems have first: "crawlRecursive env (Suc (length (v # vs) + n)) u depth c
      = crawlRecursive env (length (v # vs) + n) v depth c1"
    unfolding c1_def using crawlRecursive_redirect [of depth c env u base v "length (v # vs) + n"]
    by simp
  have "crawlRecursive env (Suc (length vs + n)) v depth c1
      = crawlRecursive env n t depth
             (c1\<lparr>visited := visited c1 \<union> url_String env ` set (v # vs),
                  crawlLog := crawlLog c1 @ map (\<lambda>v. (v, depth)) (v # vs)\<rparr>)"
  proof (rule Cons.IH)
    from Cons.prems(1) show "redirect_chain env (v # vs) t"
      by simp
    from Cons.prems(2,3) show "baseURL c1 = Some base" "depth \<le> maxDepth c1"
      by (simp_all add: c1_def)
    from Cons.prems(4) show "distinct (map (url_String env) (v # vs))"
      by simp
    from Cons.prems(4) have "url_String env u \<notin> url_String env ` set (v # vs)"
      by simp
    then have "url_String env w \<noteq> url_String env u" if "w \<in> set (v # vs)" for w
      using that by (metis imageI)
    with Cons.prems(5)
    show "\<forall>w \<in> set (v # vs). url_String env w \<notin> visited c1 \<and> Host w = Host base"
      by (simp add: c1_def)
  qed
  with first show ?case
    by (simp add: c1_def Un_commute insert_commute)
qed

section \<open>Crawls of the example sites\<close>

lemmas plain_defs =
  url_ParseRef_plain_def url_Parse_defs ResolveReference_def resolvePath_def site_def

lemma site_String: "url_String_plain (site (CHR ''/'' # p)) = ''http://h.example/'' @ p"
  by (simp add: url_String_plain_def site_def plain_url_def)

lemma site_Host: "Host (site p) = ''h.example''"
  by (simp add: site_def plain_url_def)

lemma web_env_sel:
  "url_String (web_env pages) = url_String_plain"
  "url_ParseRef (web_env pages) = url_ParseRef_plain"
  "fetch (web_env pages) = map_of pages"
  "emailRegex_FindAllString (web_env pages) = no_emails"
  "strings_ToLower (web_env pages) = ToLower"
  "strings_TrimSpace (web_env pages) = TrimSpace"
  by (simp_all add: web_env_def)

lemma resolve_a: "url_ParseRef_plain (site ''/'') ''/a'' = Some (site ''/a'')"
  by (simp add: plain_defs)

lemma resolve_a_slash: "url_ParseRef_plain (site ''/'') ''/a/'' = Some (site ''/a/'')"
  by (simp add: plain_defs)

lemma not_contact_a:
  "\<not> isContactLink (web_env pages) (Path (site ''/a''))"
  "\<not> isContactLink (web_env pages) (Path (site ''/a/''))"
  by (simp_all add: site_def plain_url_def isContactLink_def web_env_sel contactKeywords_def
      ToLower_def ToLowerChar_def HasPrefix_def)

lemma slash_crawl:
  "Crawl slash_web 2 (New 1) (site ''/'')
     = Done \<lparr>maxDepth = 1,
             visited = {''http://h.example/a/'', ''http://h.example/a'', ''http://h.example/''},
             emails = {}, baseURL = Some (site ''/''),
             crawlLog = [(site ''/'', 0), (site ''/a'', 1), (site ''/a/'', 1)]\<rparr>"
  by (simp add: Crawl_def New_def numeral_2_eq_2 slash_web_def web_env_sel site_String site_Host
      resolveURL_def resolve_a resolve_a_slash not_contact_a linking_def no_emails_def)


lemma resolve_links:
  "url_ParseRef_plain (site ''/'') ''http://other.example/'' = Some other_host"
  "url_ParseRef_plain (site ''/'') ''/Contact-Us'' = Some (site ''/Contact-Us'')"
  "url_ParseRef_plain (site ''/'') ''/news'' = Some (site ''/news'')"
  by (simp_all add: plain_defs other_host_def)

lemma contact_links:
  "isContactLink (web_env pages) (Path (site ''/Contact-Us''))"
  "\<not> isContactLink (web_env pages) (Path (site ''/news''))"
  "\<not> isContactLink (web_env pages) (Path other_host)"
  by (simp_all add: site_def other_host_def plain_url_def isContactLink_def web_env_sel
      contactKeywords_def ToLower_def ToLowerChar_def HasPrefix_def)

lemma other_host_Host: "Host other_host = ''other.example''"
  by (simp add: other_host_def plain_url_def)

lemma other_host_String: "url_String_plain other_host = ''http://other.example/''"
  by (simp add: url_String_plain_def other_host_def plain_url_def)

lemma links_crawl_1:
  "Crawl links_web 2 (New 1) (site ''/'')
     = Done \<lparr>maxDepth = 1,
             visited = {''http://h.example/news'', ''http://h.example/Contact-Us'',
                        ''http://h.example/''},
             emails = {}, baseURL = Some (site ''/''),
             crawlLog = [(site ''/'', 0), (site ''/Contact-Us'', 0), (site ''/news'', 1)]\<rparr>"
  by (simp add: Crawl_def New_def numeral_2_eq_2 links_web_def web_env_sel site_String site_Host
      resolveURL_def resolve_links contact_links other_host_Host other_host_String linking_def
      no_emails_def)

lemma links_crawl_0:
  "Crawl links_web 2 (New 0) (site ''/'')
     = Done \<lparr>maxDepth = 0,
             visited = {''http://h.example/Contact-Us'', ''http://h.example/''},
             emails = {}, baseURL = Some (site ''/''),
             crawlLog = [(site ''/'', 0), (site ''/Contact-Us'', 0)]\<rparr>"
  by (simp add: Crawl_def New_def numeral_2_eq_2 links_web_def web_env_sel site_String site_Host
      resolveURL_def resolve_links contact_links other_host_Host other_host_String linking_def
      no_emails_def)

theorem crawl_stays_on_start_host_witness:
  "Host (site ''/'') = ''h.example''
   \<and> map (Host \<circ> fst) (crawlLog (state_of (Crawl links_web 2 (New 1) (site ''/''))))
       = [''h.example'', ''h.example'', ''h.example'']
   \<and> list_all (\<lambda>x. Host (fst x) = Host (site ''/''))
        (crawlLog (state_of (Crawl links_web 2 (New 1) (site ''/''))))
   \<and> resolveURL links_web (site ''/'') ''http://other.example/'' = Some other_host
   \<and> baseURL (started 1) = Some (site ''/'')
   \<and> Host other_host \<noteq> Host (site ''/'')
   \<and> crawlRecursive links_web (Suc 0) other_host 1 (started 1) = Done (started 1)"
proof -
  have b: "baseURL (started 1) = Some (site ''/'')"
    by (simp add: started_def)
  have h: "Host other_host \<noteq> Host (site ''/'')"
    by (simp add: other_host_Host site_Host)
  from crawl_stays_on_start_host [of links_web 2 1 "site ''/''" "started 1" other_host 0 1] b h
  have all: "\<forall>x \<in> set (crawlLog (state_of (Crawl links_web 2 (New 1) (site ''/'')))).
       Host (fst x) = Host (site ''/'')"
    and rej: "crawlRecursive links_web (Suc 0) other_host 1 (started 1) = Done (started 1)"
    by simp_all
  from all have "list_all (\<lambda>x. Host (fst x) = Host (site ''/''))
        (crawlLog (state_of (Crawl links_web 2 (New 1) (site ''/''))))"
    by (simp only: list_all_iff)
  moreover have "map (Host \<circ> fst) (crawlLog (state_of (Crawl links_web 2 (New 1) (site ''/''))))
       = [''h.example'', ''h.example'', ''h.example'']"
    by (simp add: links_crawl_1 site_Host)
  moreover have "resolveURL links_web (site ''/'') ''http://other.example/'' = Some other_host"
    by (simp add: resolveURL_def links_web_def web_env_sel resolve_links)
  ultimately show ?thesis
    using b h rej by (simp add: site_Host)
qed

theorem crawl_fetches_each_URL_text_once_witness:
  "distinct (map (\<lambda>x. url_String slash_web (fst x))
      (crawlLog (state_of (Crawl slash_web 2 (New 1) (site ''/'')))))
   \<and> map (\<lambda>x. url_String slash_web (fst x))
        (crawlLog (state_of (Crawl slash_web 2 (New 1) (site ''/''))))
       = [''http://h.example/'', ''http://h.example/a'', ''http://h.example/a/'']
   \<and> url_String slash_web (site ''/a'') \<in> visited (state_of (Crawl slash_web 2 (New 1) (site ''/'')))
   \<and> crawlRecursive slash_web (Suc 0) (site ''/a'') 1
        (state_of (Crawl slash_web 2 (New 1) (site ''/'')))
       = Done (state_of (Crawl slash_web 2 (New 1) (site ''/'')))"
proof -
  let ?c = "state_of (Crawl slash_web 2 (New 1) (site ''/''))"
  have s: "url_String slash_web = url_String_plain"
    by (simp add: slash_web_def web_env_sel)
  have v: "url_String slash_web (site ''/a'') \<in> visited ?c"
    by (simp add: slash_crawl s site_String)
  from crawl_fetches_each_URL_text_once [of slash_web 2 1 "site ''/''" "site ''/a''" ?c 0 1] v
  have d: "distinct (map (\<lambda>x. url_String slash_web (fst x)) (crawlLog ?c))"
    and r: "crawlRecursive slash_web (Suc 0) (site ''/a'') 1 ?c = Done ?c"
    by simp_all
  have m: "map (\<lambda>x. url_String slash_web (fst x)) (crawlLog ?c)
       = [''http://h.example/'', ''http://h.example/a'', ''http://h.example/a/'']"
    by (simp add: slash_crawl s site_String)
  from d m v r show ?thesis
    by (intro conjI)
qed

text \<open>
  The visited set is keyed by the whole URL text, not by the normalized URL (lower-case
  host and path without its trailing slash). From a start page that links to \<open>/a\<close> and to
  \<open>/a/\<close> both are fetched, and they have the same normalized URL.
\<close>

theorem same_normalized_URL_fetched_twice_counterexample:
  "map (url_String_plain \<circ> fst) (crawlLog (state_of (Crawl slash_web 2 (New 1) (site ''/''))))
     = [''http://h.example/'', ''http://h.example/a'', ''http://h.example/a/'']
   \<and> map (normalizedURL \<circ> fst) (crawlLog (state_of (Crawl slash_web 2 (New 1) (site ''/''))))
     = [''h.example'', ''h.example/a'', ''h.example/a'']
   \<and> \<not> distinct (map (normalizedURL \<circ> fst)
          (crawlLog (state_of (Crawl slash_web 2 (New 1) (site ''/'')))))"
proof -
  have n: "normalizedURL (site ''/'') = ''h.example''"
    "normalizedURL (site ''/a'') = ''h.example/a''"
    "normalizedURL (site ''/a/'') = ''h.example/a''"
    by (simp_all add: normalizedURL_def site_def plain_url_def TrimSuffix_slash ToLower_def
        ToLowerChar_def)
  show ?thesis
    by (simp add: slash_crawl site_String n)
qed

lemma at_root_eq:
  "at_root md = \<lparr>maxDepth = md, visited = {''http://h.example/''}, emails = {},
                 baseURL = Some (site ''/''), crawlLog = [(site ''/'', 0)]\<rparr>"
  by (simp add: at_root_def started_def New_def)

lemma links_web_sel:
  "url_String links_web = url_String_plain" "url_ParseRef links_web = url_ParseRef_plain"
  by (simp_all add: links_web_def web_env_sel)

lemma links_web_contact:
  "isContactLink links_web (Path (site ''/Contact-Us''))"
  "\<not> isContactLink links_web (Path (site ''/news''))"
  unfolding links_web_def by (rule contact_links)+

lemma latin_web_sel:
  "url_ParseRef latin_web = url_ParseRef_plain" "strings_ToLower latin_web = ToLowerLatin"
  by (simp_all add: latin_web_def web_env_def)

lemma resolve_buero: "url_ParseRef_plain (site ''/'') buero_upper = Some (site buero_upper)"
  by (simp add: plain_defs buero_upper_def)

lemma ToLowerLatin_buero:
  "ToLowerLatin buero_upper = buero_lower" "ToLowerLatin buero_lower = buero_lower"
  by (simp_all add: buero_upper_def buero_lower_def ToLowerChar_def)

lemma contact_buero_lower: "isContactLink latin_web buero_lower"
  by (simp add: isContactLink_def latin_web_sel ToLowerLatin_buero(2))
    (simp add: buero_lower_def contactKeywords_def HasPrefix_def)

theorem link_depth_by_keyword_witness:
  "resolveURL links_web (site ''/'') ''/news'' = Some (site ''/news'')
   \<and> \<not> isContactLink links_web (Path (site ''/news'')) \<and> maxDepth (at_root 0) < 0 + 1
   \<and> crawlLinks links_web (Suc 0) (site ''/'') 0 [''/news''] (at_root 0) = Done (at_root 0)
   \<and> resolveURL links_web (site ''/'') ''/Contact-Us'' = Some (site ''/Contact-Us'')
   \<and> isContactLink links_web (Path (site ''/Contact-Us''))
   \<and> prefix (crawlLog (at_root 0) @ [(site ''/Contact-Us'', 0)])
        (crawlLog (state_of (crawlLinks links_web (Suc 0) (site ''/'') 0
           [''/Contact-Us'', ''/news''] (at_root 0))))
   \<and> strings_ToLower links_web ''/Contact-Us'' = strings_ToLower links_web ''/CONTACT-us''
   \<and> isContactLink links_web ''/CONTACT-us''
   \<and> crawlLog (state_of (Crawl links_web 2 (New 0) (site ''/'')))
       = [(site ''/'', 0), (site ''/Contact-Us'', 0)]
   \<and> crawlLog (state_of (Crawl links_web 2 (New 1) (site ''/'')))
       = [(site ''/'', 0), (site ''/Contact-Us'', 0), (site ''/news'', 1)]
   \<and> resolveURL latin_web (site ''/'') buero_upper = Some (site buero_upper)
   \<and> strings_ToLower latin_web buero_upper = buero_lower
   \<and> isContactLink latin_web (Path (site buero_upper))
   \<and> maxDepth (started 0) = 0
   \<and> prefix [(site buero_upper, 0)]
        (crawlLog (state_of (crawlLinks latin_web (Suc 0) (site ''/'') 0 [buero_upper]
           (started 0))))"
proof -
  have b: "baseURL (at_root 0) = Some (site ''/'')"
    by (simp add: at_root_eq)
  have rn: "resolveURL links_web (site ''/'') ''/news'' = Some (site ''/news'')"
    and rc: "resolveURL links_web (site ''/'') ''/Contact-Us'' = Some (site ''/Contact-Us'')"
    by (simp_all add: resolveURL_def links_web_sel resolve_links)
  have dn: "(1::int) = (if isContactLink links_web (Path (site ''/news'')) then 0 else 0 + 1)"
    and dc: "(0::int)
      = (if isContactLink links_web (Path (site ''/Contact-Us'')) then 0 else 0 + 1)"
    by (simp_all add: links_web_contact)
  have over: "maxDepth (at_root 0) < 0 + 1"
    by (simp add: at_root_eq)
  from link_depth_by_keyword [OF rn b dn, of 0 "[]"] over
  have one: "crawlLinks links_web (Suc 0) (site ''/'') 0 [''/news''] (at_root 0) = Done (at_root 0)"
    by simp
  have fresh: "0 \<le> maxDepth (at_root 0)
      \<and> url_String links_web (site ''/Contact-Us'') \<notin> visited (at_root 0)
      \<and> Host (site ''/Contact-Us'') = Host (site ''/'')"
    by (simp add: at_root_eq links_web_sel site_String site_Host)
  have low: "strings_ToLower links_web ''/Contact-Us'' = strings_ToLower links_web ''/CONTACT-us''"
    by (simp add: links_web_def web_env_sel ToLower_def ToLowerChar_def)
  have cu: "isContactLink links_web ''/Contact-Us''"
    using links_web_contact(1) by (simp add: site_def plain_url_def)
  from link_depth_by_keyword [OF rc b dc, of 0 "[''/news'']" "''/Contact-Us''" "''/CONTACT-us''"]
    fresh low cu
  have two: "prefix (crawlLog (at_root 0) @ [(site ''/Contact-Us'', 0)])
        (crawlLog (state_of (crawlLinks links_web (Suc 0) (site ''/'') 0
           [''/Contact-Us'', ''/news''] (at_root 0))))"
    and up: "isContactLink links_web ''/CONTACT-us''"
    by blast+
  have rb: "resolveURL latin_web (site ''/'') buero_upper = Some (site buero_upper)"
    by (simp add: resolveURL_def latin_web_sel resolve_buero)
  have bs: "baseURL (started 0) = Some (site ''/'')" and ms: "maxDepth (started 0) = 0"
    by (simp_all add: started_def New_def)
  have lb: "strings_ToLower latin_web buero_upper = buero_lower"
    and ll: "strings_ToLower latin_web buero_upper = strings_ToLower latin_web buero_lower"
    by (simp_all add: latin_web_sel ToLowerLatin_buero)
  from link_depth_by_keyword [OF rb bs refl, where path = buero_upper and path' = buero_lower] ll
    contact_buero_lower
  have cb: "isContactLink latin_web buero_upper"
    by blast
  then have cp: "isContactLink latin_web (Path (site buero_upper))"
    by (simp add: site_def plain_url_def)
  then have db: "(0::int)
      = (if isContactLink latin_web (Path (site buero_upper)) then 0 else 0 + 1)"
    by simp
  have freshb: "0 \<le> maxDepth (started 0)
      \<and> url_String latin_web (site buero_upper) \<notin> visited (started 0)
      \<and> Host (site buero_upper) = Host (site ''/'')"
    by (simp add: started_def New_def site_Host)
  from link_depth_by_keyword [OF rb bs db, of 0 "[]"] freshb
  have three: "prefix (crawlLog (started 0) @ [(site buero_upper, 0)])
        (crawlLog (state_of (crawlLinks latin_web (Suc 0) (site ''/'') 0 [buero_upper]
           (started 0))))"
    by blast
  then have four: "prefix [(site buero_upper, 0)]
        (crawlLog (state_of (crawlLinks latin_web (Suc 0) (site ''/'') 0 [buero_upper]
           (started 0))))"
    by (simp add: started_def New_def)
  have first: "resolveURL links_web (site ''/'') ''/news'' = Some (site ''/news'')
   \<and> \<not> isContactLink links_web (Path (site ''/news'')) \<and> maxDepth (at_root 0) < 0 + 1
   \<and> crawlLinks links_web (Suc 0) (site ''/'') 0 [''/news''] (at_root 0) = Done (at_root 0)
   \<and> resolveURL links_web (site ''/'') ''/Contact-Us'' = Some (site ''/Contact-Us'')
   \<and> isContactLink links_web (Path (site ''/Contact-Us''))
   \<and> prefix (crawlLog (at_root 0) @ [(site ''/Contact-Us'', 0)])
        (crawlLog (state_of (crawlLinks links_web (Suc 0) (site ''/'') 0
           [''/Contact-Us'', ''/news''] (at_root 0))))
   \<and> strings_ToLower links_web ''/Contact-Us'' = strings_ToLower links_web ''/CONTACT-us''
   \<and> isContactLink links_web ''/CONTACT-us''
   \<and> crawlLog (state_of (Crawl links_web 2 (New 0) (site ''/'')))
       = [(site ''/'', 0), (site ''/Contact-Us'', 0)]
   \<and> crawlLog (state_of (Crawl links_web 2 (New 1) (site ''/'')))
       = [(site ''/'', 0), (site ''/Contact-Us'', 0), (site ''/news'', 1)]"
    using rn rc one two over low up
    by (simp add: links_web_contact links_crawl_0 links_crawl_1)
  from first rb lb cp ms four show ?thesis
    by (elim conjE) (intro conjI)
qed

lemma redirect_web_sel:
  "url_String redirect_web = url_String_plain" "url_ParseRef redirect_web = url_ParseRef_plain"
  "strings_ToLower redirect_web = ToLower" "strings_TrimSpace redirect_web = TrimSpace"
  "fetch redirect_web ''http://h.example/'' = Some (redirecting ''0; url=/r'' [''/skipped''])"
  "fetch redirect_web ''http://h.example/r''
     = Some (redirecting ''5;URL= http://h.example/end'' [''/skipped''])"
  "fetch redirect_web ''http://h.example/end'' = Some (linking [])"
  by (simp_all add: redirect_web_def web_env_sel)

lemma resolve_redirects:
  "url_ParseRef_plain (site ''/'') ''/r'' = Some (site ''/r'')"
  "url_ParseRef_plain (site ''/r'') ''http://h.example/end'' = Some (site ''/end'')"
  by (simp_all add: plain_defs)

lemma example_redirects:
  "redirects_to redirect_web (site ''/'') (site ''/r'')"
  "redirects_to redirect_web (site ''/r'') (site ''/end'')"
  by (simp_all add: redirects_to_def redirect_web_sel site_String redirecting_def
      parseMetaRefresh_def TrimSpace_def isSpace_def ToLower_def ToLowerChar_def HasPrefix_def
      resolve_redirects)

theorem redirect_followed_at_same_depth_witness:
  "redirect_chain redirect_web [site ''/'', site ''/r''] (site ''/end'')
   \<and> baseURL (started 0) = Some (site ''/'') \<and> 0 \<le> maxDepth (started 0)
   \<and> Crawl redirect_web 3 (New 0) (site ''/'')
       = crawlRecursive redirect_web 1 (site ''/end'') 0
           ((started 0)\<lparr>visited := {''http://h.example/'', ''http://h.example/r''},
                         crawlLog := [(site ''/'', 0), (site ''/r'', 0)]\<rparr>)
   \<and> crawlLog (state_of (Crawl redirect_web 3 (New 0) (site ''/'')))
       = [(site ''/'', 0), (site ''/r'', 0), (site ''/end'', 0)]
   \<and> emails (state_of (Crawl redirect_web 3 (New 0) (site ''/''))) = {}"
proof -
  have ch: "redirect_chain redirect_web [site ''/'', site ''/r''] (site ''/end'')"
    by (simp add: example_redirects)
  have b: "baseURL (started 0) = Some (site ''/'')" and m: "0 \<le> maxDepth (started 0)"
    by (simp_all add: started_def New_def)
  have d: "distinct (map (url_String redirect_web) [site ''/'', site ''/r''])"
    by (simp add: redirect_web_sel site_String)
  have f: "\<forall>v \<in> set [site ''/'', site ''/r''].
      url_String redirect_web v \<notin> visited (started 0) \<and> Host v = Host (site ''/'')"
    by (simp add: started_def New_def site_Host)
  from redirect_followed_at_same_depth [OF ch b m d f, of 1]
  have run: "Crawl redirect_web 3 (New 0) (site ''/'')
       = crawlRecursive redirect_web 1 (site ''/end'') 0
           ((started 0)\<lparr>visited := {''http://h.example/'', ''http://h.example/r''},
                         crawlLog := [(site ''/'', 0), (site ''/r'', 0)]\<rparr>)"
    by (simp add: Crawl_def started_def New_def numeral_3_eq_3 redirect_web_sel site_String)
  have last: "crawlRecursive redirect_web 1 (site ''/end'') 0
           ((started 0)\<lparr>visited := {''http://h.example/'', ''http://h.example/r''},
                         crawlLog := [(site ''/'', 0), (site ''/r'', 0)]\<rparr>)
      = Done ((started 0)\<lparr>visited := {''http://h.example/end'', ''http://h.example/'',
                                       ''http://h.example/r''},
                         crawlLog := [(site ''/'', 0), (site ''/r'', 0), (site ''/end'', 0)]\<rparr>)"
    by (simp add: started_def New_def redirect_web_sel site_String site_Host linking_def
        redirect_web_def web_env_sel no_emails_def)
  from ch b m run last show ?thesis
    by (simp add: started_def New_def)
qed

section \<open>Webhook retries\<close>

lemma sendWebhook_loop_posts_le:
  "int (length (filter is_Post (sendWebhook_loop endpoint retries url payload attempt)))
     \<le> max 0 (retries + 1 - attempt)"
proof (induction endpoint retries url payload attempt rule: sendWebhook_loop.induct)
  case (1 endpoint retries url payload attempt)
  show ?case
  proof (cases "attempt \<le> retries")
    case False
    then show ?thesis
      by (simp add: sendWebhook_loop.simps [of endpoint retries url payload attempt])
  next
    case le: True
    show ?thesis
    proof (cases "endpoint attempt")
      case TransportError
      with le "1.IH"(1) show ?thesis
        by (simp add: sendWebhook_loop.simps [of endpoint retries url payload attempt])
    next
      case (Response code)
      with le "1.IH"(2) show ?thesis
        by (simp add: sendWebhook_loop.simps [of endpoint retries url payload attempt])
    qed
  qed
qed

lemma sendWebhook_loop_events:
  "set (sendWebhook_loop endpoint retries url payload attempt)
     \<subseteq> insert (Post url payload) (range Sleep)"
proof (induction endpoint retries url payload attempt rule: sendWebhook_loop.induct)
  case (1 endpoint retries url payload attempt)
  show ?case
  proof (cases "attempt \<le> retries")
    case False
    then show ?thesis
      by (simp add: sendWebhook_loop.simps [of endpoint retries url payload attempt])
  next
    case le: True
    show ?thesis
    proof (cases "endpoint attempt")
      case TransportError
      with le "1.IH"(1) show ?thesis
        by (auto simp: sendWebhook_loop.simps [of endpoint retries url payload attempt])
    next
      case (Response code)
      with le "1.IH"(2) show ?thesis
        by (auto simp: sendWebhook_loop.simps [of endpoint retries url payload attempt])
    qed
  qed
qed

lemma sendWebhook_loop_shape:
  assumes "attempt \<le> retries"
  shows "\<exists>n. attempt \<le> n \<and> n \<le> retries
           \<and> (\<forall>a. attempt \<le> a \<and> a < n \<longrightarrow> attempt_failed (endpoint a))
           \<and> (n < retries \<longrightarrow> \<not> attempt_failed (endpoint n))
           \<and> sendWebhook_loop endpoint retries url payload attempt
               = concat (map (\<lambda>a. [Post url payload, Sleep (backoff a)]) [attempt..n - 1])
                 @ [Post url payload]"
  using assms
proof (induction endpoint retries url payload attempt rule: sendWebhook_loop.induct)
  case (1 endpoint retries url payload attempt)
  let ?P = "\<lambda>n. attempt \<le> n \<and> n \<le> retries
           \<and> (\<forall>a. attempt \<le> a \<and> a < n \<longrightarrow> attempt_failed (endpoint a))
           \<and> (n < retries \<longrightarrow> \<not> attempt_failed (endpoint n))
           \<and> sendWebhook_loop endpoint retries url payload attempt
               = concat (map (\<lambda>a. [Post url payload, Sleep (backoff a)]) [attempt..n - 1])
                 @ [Post url payload]"
  have stop: "?P attempt"
    if "sendWebhook_loop endpoint retries url payload attempt = [Post url payload]"
      "attempt < retries \<longrightarrow> \<not> attempt_failed (endpoint attempt)"
    using that "1.prems" by auto
  have go: "\<exists>n. ?P n"
    if f: "attempt_failed (endpoint attempt)" and lt: "attempt < retries"
      and l: "sendWebhook_loop endpoint retries url payload attempt
          = Post url payload # Sleep (backoff attempt)
              # sendWebhook_loop endpoint retries url payload (attempt + 1)"
      and ih: "\<exists>n. attempt + 1 \<le> n \<and> n \<le> retries
           \<and> (\<forall>a. attempt + 1 \<le> a \<and> a < n \<longrightarrow> attempt_failed (endpoint a))
           \<and> (n < retries \<longrightarrow> \<not> attempt_failed (endpoint n))
           \<and> sendWebhook_loop endpoint retries url payload (attempt + 1)
               = concat (map (\<lambda>a. [Post url payload, Sleep (backoff a)]) [attempt + 1..n - 1])
                 @ [Post url payload]"
  proof -
    from ih obtain n where n: "attempt + 1 \<le> n" "n \<le> retries"
      and fl: "\<forall>a. attempt + 1 \<le> a \<and> a < n \<longrightarrow> attempt_failed (endpoint a)"
      and ok: "n < retries \<longrightarrow> \<not> attempt_failed (endpoint n)"
      and sh: "sendWebhook_loop endpoint retries url payload (attempt + 1)
               = concat (map (\<lambda>a. [Post url payload, Sleep (backoff a)]) [attempt + 1..n - 1])
                 @ [Post url payload]"
      by blast
    from n(1) have "attempt \<le> n - 1"
      by simp
    then have up: "[attempt..n - 1] = attempt # [attempt + 1..n - 1]"
      by (rule upto_rec1)
    have "attempt_failed (endpoint a)" if "attempt \<le> a \<and> a < n" for a
    proof (cases "a = attempt")
      case True
      with f show ?thesis
        by simp
    next
      case False
      with that have "attempt + 1 \<le> a \<and> a < n"
        by simp
      with fl show ?thesis
        by blast
    qed
    moreover from l sh up
    have "sendWebhook_loop endpoint retries url payload attempt
               = concat (map (\<lambda>a. [Post url payload, Sleep (backoff a)]) [attempt..n - 1])
                 @ [Post url payload]"
      by simp
    ultimately have "?P n"
      using n ok by simp
    then show ?thesis ..
  qed
  show ?case
  proof (cases "endpoint attempt")
    case TransportError
    show ?thesis
    proof (cases "attempt = retries")
      case True
      with TransportError have "?P attempt"
        by (intro stop) (simp_all add: sendWebhook_loop.simps [of endpoint retries url payload retries])
      then show ?thesis ..
    next
      case False
      with "1.prems" have lt: "attempt < retries"
        by simp
      show ?thesis
      proof (rule go [OF _ lt])
        from TransportError show "attempt_failed (endpoint attempt)"
          by simp
        from TransportError lt show "sendWebhook_loop endpoint retries url payload attempt
          = Post url payload # Sleep (backoff attempt)
              # sendWebhook_loop endpoint retries url payload (attempt + 1)"
          by (simp add: sendWebhook_loop.simps [of endpoint retries url payload attempt])
        from "1.IH"(1) [OF "1.prems" TransportError False] lt
        show "\<exists>n. attempt + 1 \<le> n \<and> n \<le> retries
           \<and> (\<forall>a. attempt + 1 \<le> a \<and> a < n \<longrightarrow> attempt_failed (endpoint a))
           \<and> (n < retries \<longrightarrow> \<not> attempt_failed (endpoint n))
           \<and> sendWebhook_loop endpoint retries url payload (attempt + 1)
               = concat (map (\<lambda>a. [Post url payload, Sleep (backoff a)]) [attempt + 1..n - 1])
                 @ [Post url payload]"
          by simp
      qed
    qed
  next
    case (Response code)
    show ?thesis
    proof (cases "200 \<le> code \<and> code < 300")
      case True
      with Response "1.prems" have "?P attempt"
        by (intro stop) (simp_all add: sendWebhook_loop.simps [of endpoint retries url payload attempt])
      then show ?thesis ..
    next
      case bad: False
      show ?thesis
      proof (cases "attempt = retries")
        case True
        with Response bad have "?P attempt"
          by (intro stop)
            (simp_all add: sendWebhook_loop.simps [of endpoint retries url payload retries])
        then show ?thesis ..
      next
        case False
        with "1.prems" have lt: "attempt < retries"
          by simp
        show ?thesis
        proof (rule go [OF _ lt])
          from Response bad show "attempt_failed (endpoint attempt)"
            by simp
          from Response bad lt show "sendWebhook_loop endpoint retries url payload attempt
            = Post url payload # Sleep (backoff attempt)
                # sendWebhook_loop endpoint retries url payload (attempt + 1)"
            by (simp add: sendWebhook_loop.simps [of endpoint retries url payload attempt])
          from "1.IH"(2) [OF "1.prems" Response bad False] lt
          show "\<exists>n. attempt + 1 \<le> n \<and> n \<le> retries
             \<and> (\<forall>a. attempt + 1 \<le> a \<and> a < n \<longrightarrow> attempt_failed (endpoint a))
             \<and> (n < retries \<longrightarrow> \<not> attempt_failed (endpoint n))
             \<and> sendWebhook_loop endpoint retries url payload (attempt + 1)
                 = concat (map (\<lambda>a. [Post url payload, Sleep (backoff a)]) [attempt + 1..n - 1])
                   @ [Post url payload]"
            by simp
        qed
      qed
    qed
  qed
qed

lemma sint_backoff:
  assumes "- 4611686018 \<le> a" "a \<le> 4611686018"
  shows "sint (backoff a) = a * 2000000000"
proof -
  have w: "backoff a = (word_of_int (a * 2000000000) :: 64 word)"
    by (simp add: backoff_def Second_def)
  have s: "sint (word_of_int x :: 64 word) = signed_take_bit 63 x" for x
    by (simp add: sint_sbintrunc')
  have "signed_take_bit 63 (a * 2000000000) = a * 2000000000"
    using assms by (intro signed_take_bit_int_eq_self) simp_all
  with s [of "a * 2000000000"] show ?thesis
    by (simp only: w)
qed

lemma sendWebhook_run:
  "\<exists>evs. sendWebhook cfg endpoint now job w = (job, w\<lparr>outbox := outbox w @ evs\<rparr>)
      \<and> (evs = [] \<and> (WebhookURL job = [] \<or> AsyncWebhookRetries cfg < 1)
         \<or> WebhookURL job \<noteq> [] \<and> 1 \<le> AsyncWebhookRetries cfg
            \<and> evs = sendWebhook_loop endpoint (AsyncWebhookRetries cfg) (WebhookURL job)
                      (webhookPayload job now) 1)"
proof (cases "WebhookURL job = []")
  case True
  then have "sendWebhook cfg endpoint now job w = (job, w\<lparr>outbox := outbox w @ []\<rparr>)"
    by (simp add: sendWebhook_def)
  with True show ?thesis
    by blast
next
  case False
  then have run: "sendWebhook cfg endpoint now job w
      = (job, w\<lparr>outbox := outbox w @ sendWebhook_loop endpoint (AsyncWebhookRetries cfg)
           (WebhookURL job) (webhookPayload job now) 1\<rparr>)"
    by (simp add: sendWebhook_def)
  show ?thesis
  proof (cases "1 \<le> AsyncWebhookRetries cfg")
    case True
    with False run show ?thesis
      by blast
  next
    case no: False
    then have "sendWebhook_loop endpoint (AsyncWebhookRetries cfg) (WebhookURL job)
        (webhookPayload job now) 1 = []"
      by (simp add: sendWebhook_loop.simps [of endpoint "AsyncWebhookRetries cfg" _ _ 1])
    with run no show ?thesis
      by auto
  qed
qed

lemma touches_refl: "touches i q q"
  by (simp add: touches_def)

lemma touches_trans: "touches i q q' \<Longrightarrow> touches i q' q'' \<Longrightarrow> touches i q q''"
  unfolding touches_def by metis

lemma touches_UpdateJob: "touches (ID job) q (snd (UpdateJob fails job q))"
  by (simp add: touches_def UpdateJob_def)

lemma CompleteJob_touches:
  assumes "CompleteJob f now job emailList pagesVisited crawlTime q = (e, job', q')"
  shows "ID job' = ID job \<and> WebhookURL job' = WebhookURL job \<and> touches (ID job) q q'"
  using assms
  by (auto simp: CompleteJob_def UpdateJob_def Let_def touches_def split: if_splits)

lemma FailJob_touches:
  assumes "FailJob f now job errorMsg q = (e, job', q')"
  shows "ID job' = ID job \<and> WebhookURL job' = WebhookURL job \<and> touches (ID job) q q'"
  using assms
  by (auto simp: FailJob_def UpdateJob_def Let_def touches_def split: if_splits)

lemma sendWebhook_fst: "fst (sendWebhook cfg endpoint now job w) = job"
  by (simp add: sendWebhook_def Let_def)

lemma sendWebhook_store:
  "jobStore (snd (sendWebhook cfg endpoint now job w)) = jobStore w"
  "resultCache (snd (sendWebhook cfg endpoint now job w)) = resultCache w"
  by (simp_all add: sendWebhook_def Let_def)

lemma processJob_sent:
  assumes "ID job1 = ID job" "WebhookURL job1 = WebhookURL job"
    and "touches (ID job) (jobStore w) (jobStore w1)" and "outbox w1 = outbox w"
    and "sendWebhook cfg endpoint now job1 w1 = (job', w')"
  shows "ID job' = ID job \<and> WebhookURL job' = WebhookURL job
     \<and> touches (ID job) (jobStore w) (jobStore w')
     \<and> (\<exists>w1. outbox w1 = outbox w
           \<and> (w' = w1 \<or> sendWebhook cfg endpoint now job' w1 = (job', w')))"
proof -
  from assms(5) sendWebhook_fst [of cfg endpoint now job1 w1] have j: "job' = job1"
    by simp
  from assms(5) sendWebhook_store(1) [of cfg endpoint now job1 w1]
  have "jobStore w' = jobStore w1"
    by simp
  with assms j show ?thesis
    by auto
qed

lemma processJob_effect:
  assumes "processJob cfg parse digest env fuel r job w = Some (job', w')"
  shows "ID job' = ID job \<and> WebhookURL job' = WebhookURL job
     \<and> touches (ID job) (jobStore w) (jobStore w')
     \<and> (\<exists>w1. outbox w1 = outbox w
           \<and> (w' = w1
              \<or> sendWebhook cfg (run_endpoint r) (run_webhookAt r) job' w1 = (job', w')))"
proof (cases "Get parse digest (run_getFails r) (URL job) (resultCache w)")
  case (Some cachedResult)
  obtain e job1 q1 where c: "CompleteJob (run_completeFaults r) (run_completeAt r) job
      (cached_Emails cachedResult) (cached_PagesVisited cachedResult) (run_crawlTime r)
      (jobStore w) = (e, job1, q1)"
    by (metis prod_cases3)
  note c1 = CompleteJob_touches [OF c]
  show ?thesis
  proof (cases e)
    case None
    with assms Some c have "sendWebhook cfg (run_endpoint r) (run_webhookAt r) job1
        (w\<lparr>jobStore := q1\<rparr>) = (job', w')"
      by (simp add: processJob_def)
    then show ?thesis
      using c1 by (intro processJob_sent [where ?job1.0 = job1 and ?w1.0 = "w\<lparr>jobStore := q1\<rparr>"])
        simp_all
  next
    case (Some err)
    obtain e2 job2 q2 where f: "FailJob (run_failFaults r) (run_failAt r) job1
        (''Failed to complete job: '' @ run_errorText r err) q1 = (e2, job2, q2)"
      by (metis prod_cases3)
    note f1 = FailJob_touches [OF f]
    from assms \<open>Get parse digest (run_getFails r) (URL job) (resultCache w) = Some cachedResult\<close>
      c Some f
    have "job' = job2" "w' = w\<lparr>jobStore := q2\<rparr>"
      by (simp_all add: processJob_def)
    moreover from c1 f1 have "touches (ID job) (jobStore w) q2"
      using touches_trans by metis
    moreover have "\<exists>w1. outbox w1 = outbox w
           \<and> (w\<lparr>jobStore := q2\<rparr> = w1
              \<or> sendWebhook cfg (run_endpoint r) (run_webhookAt r) job2 w1
                  = (job2, w\<lparr>jobStore := q2\<rparr>))"
      by (rule exI [of _ "w\<lparr>jobStore := q2\<rparr>"]) simp
    ultimately show ?thesis
      using c1 f1 by simp
  qed
next
  case miss: None
  show ?thesis
  proof (cases "parse (URL job)")
    case None
    obtain e job1 q1 where f: "FailJob (run_failFaults r) (run_failAt r) job
        (''Invalid URL: '' @ run_parseError r) (jobStore w) = (e, job1, q1)"
      by (metis prod_cases3)
    note f1 = FailJob_touches [OF f]
    from assms miss None f have "sendWebhook cfg (run_endpoint r) (run_webhookAt r) job1
        (w\<lparr>jobStore := q1\<rparr>) = (job', w')"
      by (simp add: processJob_def)
    then show ?thesis
      using f1 by (intro processJob_sent [where ?job1.0 = job1 and ?w1.0 = "w\<lparr>jobStore := q1\<rparr>"])
        simp_all
  next
    case (Some startURL)
    from assms miss Some obtain c where
      crawl: "Crawl env fuel (New (MaxDepth cfg)) startURL = Done c"
      by (cases "Crawl env fuel (New (MaxDepth cfg)) startURL") (simp_all add: processJob_def)
    show ?thesis
    proof (cases "run_timedOut r")
      case True
      obtain e job1 q1 where f: "FailJob (run_failFaults r) (run_failAt r) job
          ''Job timed out'' (jobStore w) = (e, job1, q1)"
        by (metis prod_cases3)
      note f1 = FailJob_touches [OF f]
      from assms miss Some crawl True f
      have "sendWebhook cfg (run_endpoint r) (run_webhookAt r) job1
          (w\<lparr>jobStore := q1\<rparr>) = (job', w')"
        by (simp add: processJob_def)
      then show ?thesis
        using f1
        by (intro processJob_sent [where ?job1.0 = job1 and ?w1.0 = "w\<lparr>jobStore := q1\<rparr>"])
          simp_all
    next
      case False
      define emailList where "emailList = run_range r (emails c)"
      define cm1 where "cm1 = snd (Set parse digest (run_setFails r) (run_setAt r) (URL job)
          emailList (MaxDepth cfg) (int (card (emails c))) (resultCache w))"
      obtain e job1 q1 where co: "CompleteJob (run_completeFaults r) (run_completeAt r) job
          (DeduplicateEmails cm1 emailList) (int (card (emails c))) (run_crawlTime r)
          (jobStore w) = (e, job1, q1)"
        by (metis prod_cases3)
      note c1 = CompleteJob_touches [OF co]
      show ?thesis
      proof (cases e)
        case None
        with assms miss Some crawl False co
        have "sendWebhook cfg (run_endpoint r) (run_webhookAt r) job1
            (w\<lparr>jobStore := q1, resultCache := cm1\<rparr>) = (job', w')"
          by (simp add: processJob_def Let_def cm1_def emailList_def)
        then show ?thesis
          using c1
          by (intro processJob_sent
              [where ?job1.0 = job1 and ?w1.0 = "w\<lparr>jobStore := q1, resultCache := cm1\<rparr>"])
            simp_all
      next
        case (Some err)
        obtain e2 job2 q2 where f: "FailJob (run_failFaults r) (run_failAt r) job1
            (''Failed to complete job: '' @ run_errorText r err) q1 = (e2, job2, q2)"
          by (metis prod_cases3)
        note f1 = FailJob_touches [OF f]
        from assms miss \<open>parse (URL job) = Some startURL\<close> crawl False co Some f
        have "sendWebhook cfg (run_endpoint r) (run_webhookAt r) job2
            (w\<lparr>jobStore := q2, resultCache := cm1\<rparr>) = (job', w')"
          by (simp add: processJob_def Let_def cm1_def emailList_def)
        moreover from c1 f1 have "touches (ID job) (jobStore w) q2"
          using touches_trans by metis
        ultimately show ?thesis
          using c1 f1
          by (intro processJob_sent
              [where ?job1.0 = job2 and ?w1.0 = "w\<lparr>jobStore := q2, resultCache := cm1\<rparr>"])
            simp_all
      qed
    qed
  qed
qed


lemma filter_Post_for:
  assumes "set evs \<subseteq> insert (Post url payload) (range Sleep)"
  shows "filter (is_Post_for i) evs
      = (if payload_JobID payload = i then filter is_Post evs else [])"
  using assms
proof (induction evs)
  case Nil
  then show ?case
    by simp
next
  case (Cons ev evs)
  then have "ev = Post url payload \<or> (\<exists>d. ev = Sleep d)"
    by auto
  with Cons show ?case
    by auto
qed

lemma sendWebhook_posts:
  assumes "sendWebhook cfg endpoint now job w = (job', w')"
  shows "\<exists>evs. outbox w' = outbox w @ evs
      \<and> set evs \<subseteq> insert (Post (WebhookURL job) (webhookPayload job now)) (range Sleep)
      \<and> int (length (filter is_Post evs)) \<le> max 0 (AsyncWebhookRetries cfg)"
proof (cases "WebhookURL job = []")
  case True
  with assms have "outbox w' = outbox w @ []"
    by (auto simp: sendWebhook_def)
  then show ?thesis
    by (intro exI [of _ "[]"]) simp
next
  case False
  define evs where "evs = sendWebhook_loop endpoint (AsyncWebhookRetries cfg) (WebhookURL job)
      (webhookPayload job now) 1"
  from False assms have "outbox w' = outbox w @ evs"
    by (auto simp: sendWebhook_def evs_def)
  moreover have "set evs \<subseteq> insert (Post (WebhookURL job) (webhookPayload job now)) (range Sleep)"
    unfolding evs_def by (rule sendWebhook_loop_events)
  moreover have "int (length (filter is_Post evs)) \<le> max 0 (AsyncWebhookRetries cfg)"
    using sendWebhook_loop_posts_le [of endpoint "AsyncWebhookRetries cfg" "WebhookURL job"
        "webhookPayload job now" 1]
    by (simp add: evs_def)
  ultimately show ?thesis
    by blast
qed

lemma processJob_posts:
  assumes "processJob cfg parse digest env fuel r job w = Some (job', w')"
  shows "\<exists>evs. outbox w' = outbox w @ evs
      \<and> set evs \<subseteq> insert (Post (WebhookURL job) (webhookPayload job' (run_webhookAt r)))
                    (range Sleep)
      \<and> int (length (filter is_Post evs)) \<le> max 0 (AsyncWebhookRetries cfg)"
proof -
  from processJob_effect [OF assms] obtain w1 where
    u: "WebhookURL job' = WebhookURL job" and o: "outbox w1 = outbox w"
    and d: "w' = w1
       \<or> sendWebhook cfg (run_endpoint r) (run_webhookAt r) job' w1 = (job', w')"
    by blast
  from d show ?thesis
  proof
    assume "w' = w1"
    with o have "outbox w' = outbox w @ []"
      by simp
    then show ?thesis
      by (intro exI [of _ "[]"]) simp
  next
    assume "sendWebhook cfg (run_endpoint r) (run_webhookAt r) job' w1 = (job', w')"
    from sendWebhook_posts [OF this] u o show ?thesis
      by simp
  qed
qed

lemma processJob_posts_for:
  assumes "processJob cfg parse digest env fuel r job w = Some (job', w')"
  shows "\<exists>evs. outbox w' = outbox w @ evs
      \<and> (\<forall>i. i \<noteq> ID job \<longrightarrow> filter (is_Post_for i) evs = [])
      \<and> int (length (filter (is_Post_for (ID job)) evs)) \<le> max 0 (AsyncWebhookRetries cfg)"
proof -
  from processJob_posts [OF assms] obtain evs where
    o: "outbox w' = outbox w @ evs"
    and s: "set evs \<subseteq> insert (Post (WebhookURL job) (webhookPayload job' (run_webhookAt r)))
                    (range Sleep)"
    and n: "int (length (filter is_Post evs)) \<le> max 0 (AsyncWebhookRetries cfg)"
    by blast
  from processJob_effect [OF assms] have i: "ID job' = ID job"
    by blast
  note f = filter_Post_for [OF s]
  from i have p: "payload_JobID (webhookPayload job' (run_webhookAt r)) = ID job"
    by (simp add: webhookPayload_def)
  have "\<forall>i. i \<noteq> ID job \<longrightarrow> filter (is_Post_for i) evs = []"
    using f p by simp
  moreover have "int (length (filter (is_Post_for (ID job)) evs))
      \<le> max 0 (AsyncWebhookRetries cfg)"
    using f [of "ID job"] p n by simp
  ultimately show ?thesis
    using o by blast
qed


lemma pool_inv_NewWorld: "pool_inv cfg (NewWorld cm)"
  by (simp add: pool_inv_def NewWorld_def NewQueue_def)

lemma pool_inv_shrink:
  assumes "pool_inv cfg w" and "job_records q = job_records (jobStore w)"
    and "distinct (job_queue q)" and "set (job_queue q) \<subseteq> set (job_queue (jobStore w))"
  shows "pool_inv cfg (w\<lparr>jobStore := q\<rparr>)"
  using assms unfolding pool_inv_def by (simp add: subset_iff)

lemma pool_inv_update:
  assumes "pool_inv cfg w" and "job_records (jobStore w) (JobKeyPrefix @ ID job) \<noteq> None"
  shows "pool_inv cfg (w\<lparr>jobStore := snd (UpdateJob fails job (jobStore w))\<rparr>)"
  using assms unfolding pool_inv_def by (simp add: UpdateJob_def)

lemma last_notin_butlast: "distinct xs \<Longrightarrow> xs \<noteq> [] \<Longrightarrow> last xs \<notin> set (butlast xs)"
  by (cases xs rule: rev_cases) simp_all

lemma pool_inv_Enqueue:
  assumes "pool_inv cfg w" and "job_records (jobStore w) (JobKeyPrefix @ jobID) = None"
  shows "pool_inv cfg (w\<lparr>jobStore := snd (Enqueue f jobID now req (jobStore w))\<rparr>)"
proof -
  from assms have nq: "jobID \<notin> set (job_queue (jobStore w))"
    and np: "filter (is_Post_for jobID) (outbox w) = []"
    unfolding pool_inv_def by blast+
  with assms show ?thesis
    unfolding pool_inv_def by (auto simp: Enqueue_def Let_def)
qed

lemma pool_inv_Cancel:
  assumes "pool_inv cfg w"
  shows "pool_inv cfg (w\<lparr>jobStore := snd (CancelJob f now jobID (jobStore w))\<rparr>)"
proof (cases "GetJob (f 0) jobID (jobStore w)")
  case (Inl e)
  with assms show ?thesis
    by (simp add: CancelJob_def)
next
  case (Inr job)
  then have rec: "job_records (jobStore w) (JobKeyPrefix @ jobID) = Some job"
    by (auto simp: GetJob_def split: if_splits option.splits)
  with assms have id: "ID job = jobID"
    unfolding pool_inv_def by (metis same_append_eq)
  show ?thesis
  proof (cases "Status job = StatusProcessing \<or> f 1")
    case True
    with Inr assms show ?thesis
      by (auto simp: CancelJob_def UpdateJob_def)
  next
    case False
    define job' where "job' = job\<lparr>Status := StatusCancelled, CompletedAt := Some now\<rparr>"
    define w1 where "w1 = w\<lparr>jobStore := snd (UpdateJob False job' (jobStore w))\<rparr>"
    have i1: "pool_inv cfg w1"
      unfolding w1_def using assms rec id by (intro pool_inv_update) (simp_all add: job'_def)
    define q3 where "q3 = snd (CancelJob f now jobID (jobStore w))"
    from Inr False have r3: "job_records q3 = job_records (jobStore w1)"
      and s3: "job_queue q3 = job_queue (jobStore w) \<or>
               job_queue q3 = removeAll jobID (job_queue (jobStore w))"
      and a3: "w\<lparr>jobStore := q3\<rparr> = w1\<lparr>jobStore := q3\<rparr>"
      by (auto simp: q3_def w1_def job'_def CancelJob_def UpdateJob_def Let_def)
    have q1: "job_queue (jobStore w1) = job_queue (jobStore w)"
      by (simp add: w1_def UpdateJob_def)
    from assms have "distinct (job_queue (jobStore w))"
      unfolding pool_inv_def by blast
    with s3 have "distinct (job_queue q3)"
      by (auto simp: distinct_removeAll)
    moreover from s3 q1 have "set (job_queue q3) \<subseteq> set (job_queue (jobStore w1))"
      by auto
    ultimately have "pool_inv cfg (w1\<lparr>jobStore := q3\<rparr>)"
      using i1 r3 by (intro pool_inv_shrink)
    with a3 show ?thesis
      by (simp add: q3_def)
  qed
qed


lemma Dequeue_other:
  assumes "pool_inv cfg w" and "Dequeue f now (jobStore w) = (res, q)"
    and "\<forall>job. res \<noteq> Inr (Some job)"
  shows "pool_inv cfg (w\<lparr>jobStore := q\<rparr>)"
proof -
  from assms(1) have d: "distinct (job_queue (jobStore w))"
    unfolding pool_inv_def by blast
  from assms(2,3) have "job_records q = job_records (jobStore w)
      \<and> (job_queue q = job_queue (jobStore w) \<or> job_queue q = butlast (job_queue (jobStore w)))"
    by (auto simp: Dequeue_def Let_def split: if_splits list.splits sum.splits)
  moreover from this d have "distinct (job_queue q)"
    by (auto simp: distinct_butlast)
  moreover from calculation have "set (job_queue q) \<subseteq> set (job_queue (jobStore w))"
    by (auto dest: in_set_butlastD)
  ultimately show ?thesis
    using assms(1) by (intro pool_inv_shrink) simp_all
qed

lemma Dequeue_job:
  assumes "pool_inv cfg w" and "Dequeue f now (jobStore w) = (Inr (Some job), q)"
  shows "pool_inv cfg (w\<lparr>jobStore := q\<rparr>) \<and> ID job \<notin> set (job_queue q)
     \<and> filter (is_Post_for (ID job)) (outbox w) = []
     \<and> job_records q (JobKeyPrefix @ ID job) \<noteq> None"
proof -
  define xs where "xs = job_queue (jobStore w)"
  define q1 where "q1 = (jobStore w)\<lparr>job_queue := butlast xs\<rparr>"
  from assms(2) have ne: "xs \<noteq> []"
    by (auto simp: Dequeue_def xs_def split: if_splits)
  from assms(2) ne obtain job0 where
    g: "GetJob (f 1) (last xs) q1 = Inr job0"
    and j: "job = job0\<lparr>Status := StatusProcessing, StartedAt := Some now\<rparr>"
    and q: "q = snd (UpdateJob (f 2) job q1)"
    by (auto simp: Dequeue_def Let_def xs_def q1_def split: if_splits list.splits sum.splits)
  from g have rec: "job_records (jobStore w) (JobKeyPrefix @ last xs) = Some job0"
    by (auto simp: GetJob_def q1_def split: if_splits option.splits)
  with assms(1) have "ID job0 = last xs"
    unfolding pool_inv_def by (metis same_append_eq)
  with j have id: "ID job = last xs"
    by simp
  from assms(1) have d: "distinct xs"
    unfolding pool_inv_def xs_def by blast
  have i1: "pool_inv cfg (w\<lparr>jobStore := q1\<rparr>)"
    using assms(1) d
    by (intro pool_inv_shrink) (auto simp: q1_def xs_def distinct_butlast dest: in_set_butlastD)
  have "pool_inv cfg ((w\<lparr>jobStore := q1\<rparr>)
      \<lparr>jobStore := snd (UpdateJob (f 2) job (jobStore (w\<lparr>jobStore := q1\<rparr>)))\<rparr>)"
    using i1 rec id by (intro pool_inv_update) (simp_all add: q1_def)
  then have i2: "pool_inv cfg (w\<lparr>jobStore := q\<rparr>)"
    by (simp add: q)
  have nq: "ID job \<notin> set (job_queue q)"
    using d ne id by (simp add: q UpdateJob_def q1_def last_notin_butlast)
  from ne have "last xs \<in> set (job_queue (jobStore w))"
    by (simp add: xs_def)
  with assms(1) id have np: "filter (is_Post_for (ID job)) (outbox w) = []"
    unfolding pool_inv_def by metis
  from rec id have "job_records q (JobKeyPrefix @ ID job) \<noteq> None"
    by (simp add: q UpdateJob_def q1_def)
  with i2 nq np show ?thesis
    by simp
qed


lemma pool_inv_processJob:
  assumes inv: "pool_inv cfg w" and nq: "ID job \<notin> set (job_queue (jobStore w))"
    and np: "filter (is_Post_for (ID job)) (outbox w) = []"
    and rec: "job_records (jobStore w) (JobKeyPrefix @ ID job) \<noteq> None"
    and run: "processJob cfg parse digest env fuel r job w = Some (job', w')"
  shows "pool_inv cfg w'"
proof -
  from processJob_effect [OF run] have t: "touches (ID job) (jobStore w) (jobStore w')"
    by blast
  from processJob_posts_for [OF run] obtain evs where
    o: "outbox w' = outbox w @ evs"
    and other: "\<forall>i. i \<noteq> ID job \<longrightarrow> filter (is_Post_for i) evs = []"
    and n: "int (length (filter (is_Post_for (ID job)) evs)) \<le> max 0 (AsyncWebhookRetries cfg)"
    by blast
  from t have qu: "job_queue (jobStore w') = job_queue (jobStore w)"
    and rc: "\<And>k. job_records (jobStore w') k = job_records (jobStore w) k
             \<or> k = JobKeyPrefix @ ID job
                \<and> (\<exists>j. job_records (jobStore w') k = Some j \<and> ID j = ID job)"
    unfolding touches_def by blast+
  have keep: "job_records (jobStore w') k \<noteq> None" if "job_records (jobStore w) k \<noteq> None" for k
    using rc [of k] that by auto
  have a: "k = JobKeyPrefix @ ID j" if "job_records (jobStore w') k = Some j" for k j
    using rc [of k] that inv unfolding pool_inv_def by auto
  have b: "distinct (job_queue (jobStore w'))"
    using inv qu unfolding pool_inv_def by simp
  have c: "job_records (jobStore w') (JobKeyPrefix @ i) \<noteq> None
      \<and> filter (is_Post_for i) (outbox w') = []" if "i \<in> set (job_queue (jobStore w'))" for i
  proof -
    from that qu have q: "i \<in> set (job_queue (jobStore w))"
      by simp
    with nq have "i \<noteq> ID job"
      by blast
    with other have "filter (is_Post_for i) evs = []"
      by blast
    moreover from q inv have "job_records (jobStore w) (JobKeyPrefix @ i) \<noteq> None"
      "filter (is_Post_for i) (outbox w) = []"
      unfolding pool_inv_def by blast+
    ultimately show ?thesis
      using keep o by simp
  qed
  have d: "job_records (jobStore w') (JobKeyPrefix @ i) \<noteq> None"
    if "filter (is_Post_for i) (outbox w') \<noteq> []" for i
  proof (cases "i = ID job")
    case True
    with rec keep show ?thesis
      by simp
  next
    case False
    with other have "filter (is_Post_for i) evs = []"
      by blast
    with that o have "filter (is_Post_for i) (outbox w) \<noteq> []"
      by simp
    with inv have "job_records (jobStore w) (JobKeyPrefix @ i) \<noteq> None"
      unfolding pool_inv_def by blast
    then show ?thesis
      by (rule keep)
  qed
  have e: "int (length (filter (is_Post_for i) (outbox w'))) \<le> max 0 (AsyncWebhookRetries cfg)"
    for i
  proof (cases "i = ID job")
    case True
    with np n o show ?thesis
      by simp
  next
    case False
    with other have "filter (is_Post_for i) evs = []"
      by blast
    moreover from inv have "int (length (filter (is_Post_for i) (outbox w)))
        \<le> max 0 (AsyncWebhookRetries cfg)"
      unfolding pool_inv_def by blast
    ultimately show ?thesis
      using o by simp
  qed
  from a b c d e show ?thesis
    unfolding pool_inv_def by blast
qed


lemma pool_inv_step:
  assumes "pool_inv cfg w" and "pool_step cfg parse digest env op w = Some w'"
  shows "pool_inv cfg w'"
proof (cases op)
  case (PoolEnqueue f jobID now req)
  with assms(2) have fresh: "job_records (jobStore w) (JobKeyPrefix @ jobID) = None"
    and w': "w' = w\<lparr>jobStore := snd (Enqueue f jobID now req (jobStore w))\<rparr>"
    by (simp_all split: if_splits)
  from pool_inv_Enqueue [OF assms(1) fresh] w' show ?thesis
    by simp
next
  case (PoolCancel f now jobID)
  with assms(2) have "w' = w\<lparr>jobStore := snd (CancelJob f now jobID (jobStore w))\<rparr>"
    by simp
  with pool_inv_Cancel [OF assms(1)] show ?thesis
    by simp
next
  case (PoolCache cm)
  with assms(2) have "w' = w\<lparr>resultCache := cm\<rparr>"
    by simp
  with assms(1) show ?thesis
    by (simp add: pool_inv_def)
next
  case (PoolWork f now fuel r)
  obtain res q where dq: "Dequeue f now (jobStore w) = (res, q)"
    by (cases "Dequeue f now (jobStore w)")
  have none: "pool_inv cfg w'" if no: "\<forall>job. res \<noteq> Inr (Some job)"
  proof -
    from Dequeue_other [OF assms(1) dq no] have i: "pool_inv cfg (w\<lparr>jobStore := q\<rparr>)" .
    have "w' = w\<lparr>jobStore := q\<rparr>"
    proof (cases res)
      case (Inl e)
      with assms(2) PoolWork dq show ?thesis
        by simp
    next
      case (Inr x)
      with no have "x = None"
        by (cases x) simp_all
      with Inr assms(2) PoolWork dq show ?thesis
        by simp
    qed
    with i show ?thesis
      by simp
  qed
  show ?thesis
  proof (cases "\<exists>job. res = Inr (Some job)")
    case False
    then show ?thesis
      by (intro none) blast
  next
    case True
    then obtain job where res: "res = Inr (Some job)"
      by blast
    note m = Dequeue_job [OF assms(1) dq [unfolded res]]
    show ?thesis
    proof (cases "processJob cfg parse digest env fuel r job (w\<lparr>jobStore := q\<rparr>)")
      case None
      with assms(2) PoolWork dq res have "w' = w\<lparr>jobStore := q\<rparr>"
        by simp
      with m show ?thesis
        by simp
    next
      case (Some p)
      obtain job' w2 where p: "p = (job', w2)"
        by (cases p)
      with assms(2) PoolWork dq res Some have "w' = w2"
        by simp
      moreover have "pool_inv cfg w2"
      proof (rule pool_inv_processJob)
        from m show "pool_inv cfg (w\<lparr>jobStore := q\<rparr>)"
          by simp
        from m show "ID job \<notin> set (job_queue (jobStore (w\<lparr>jobStore := q\<rparr>)))"
          by simp
        from m show "filter (is_Post_for (ID job)) (outbox (w\<lparr>jobStore := q\<rparr>)) = []"
          by simp
        from m show "job_records (jobStore (w\<lparr>jobStore := q\<rparr>)) (JobKeyPrefix @ ID job) \<noteq> None"
          by simp
        from Some p
        show "processJob cfg parse digest env fuel r job (w\<lparr>jobStore := q\<rparr>) = Some (job', w2)"
          by simp
      qed
      ultimately show ?thesis
        by simp
    qed
  qed
qed

lemma pool_inv_run:
  assumes "pool_inv cfg w" and "pool_run cfg parse digest env ops w = Some w'"
  shows "pool_inv cfg w'"
  using assms
proof (induction ops arbitrary: w)
  case Nil
  then show ?case
    by simp
next
  case (Cons op ops)
  from Cons.prems(2) obtain w1 where s: "pool_step cfg parse digest env op w = Some w1"
    and r: "pool_run cfg parse digest env ops w1 = Some w'"
    by (cases "pool_step cfg parse digest env op w") simp_all
  from pool_inv_step [OF Cons.prems(1) s] r show ?case
    by (rule Cons.IH)
qed


lemma parse_example_url: "url_Parse example_url = Some (plain_url ''https'' ''example.com'' [])"
  by (simp add: example_url_def url_Parse_defs)

lemma empty_crawl:
  "Crawl (web_env []) (Suc 0) (New 3) (plain_url ''https'' ''example.com'' [])
     = Done \<lparr>maxDepth = 3, visited = {''https://example.com''}, emails = {},
             baseURL = Some (plain_url ''https'' ''example.com'' []),
             crawlLog = [(plain_url ''https'' ''example.com'' [], 0)]\<rparr>"
  by (simp add: Crawl_def New_def web_env_sel url_String_plain_def plain_url_def)

lemma example_job_sel:
  "URL example_handle = example_url" "WebhookURL example_handle = ''https://hook.example/cb''"
  "ID example_handle = ''job-1''"
  by (simp_all add: example_handle_def example_job_def example_url_def)

lemma example_processJob:
  "processJob example_config url_Parse plain_digest (web_env []) (Suc 0) example_run
     example_handle
     \<lparr>jobStore = example_processing, resultCache = example_cache, outbox = []\<rparr>
   = Some (sendWebhook example_config always_500 40 example_done
       \<lparr>jobStore = snd (snd (CompleteJob no_faults 30 example_handle [] 0 ''1s'' example_processing)),
        resultCache = snd (Set url_Parse plain_digest False 25 example_url [] 3 0 example_cache),
        outbox = []\<rparr>)"
proof -
  have g: "Get url_Parse plain_digest False example_url example_cache = None"
    by (simp add: Get_def example_cache_def)
  have d: "DeduplicateEmails (snd (Set url_Parse plain_digest False 25 example_url [] 3 0
      example_cache)) [] = []"
    by (simp add: DeduplicateEmails_def emailMap_def)
  have c: "fst (CompleteJob no_faults 30 example_handle [] 0 ''1s'' example_processing) = None"
    "fst (snd (CompleteJob no_faults 30 example_handle [] 0 ''1s'' example_processing))
       = example_done"
    by (simp_all add: CompleteJob_def UpdateJob_def no_faults_def Let_def example_handle_def
        example_done_def example_job_def)
  obtain e j q where cj: "CompleteJob no_faults 30 example_handle [] 0 ''1s'' example_processing
      = (e, j, q)"
    by (metis prod_cases3)
  with c have e: "e = None" "j = example_done"
    by simp_all
  have r: "run_getFails example_run = False" "run_setFails example_run = False"
    "run_setAt example_run = 25" "run_completeFaults example_run = no_faults"
    "run_completeAt example_run = 30" "run_webhookAt example_run = 40"
    "run_crawlTime example_run = ''1s''" "run_timedOut example_run = False"
    "run_range example_run = sorted_list_of_set" "run_endpoint example_run = always_500"
    by (simp_all add: example_run_def)
  have m: "MaxDepth example_config = 3"
    by (simp add: example_config_def)
  show ?thesis
    using cj
    by (simp add: processJob_def example_job_sel g parse_example_url empty_crawl Let_def d e r m)
qed

lemma backoff_linear:
  assumes "1 \<le> a" "a < b" "b \<le> 4611686018"
  shows "sint (backoff a) = a * 2000000000 \<and> sint (backoff a) < sint (backoff b)"
proof -
  from assms have "sint (backoff a) = a * 2000000000" "sint (backoff b) = b * 2000000000"
    by (simp_all add: sint_backoff)
  with assms(2) show ?thesis
    by simp
qed

lemma sendWebhook_delivery:
  fixes cfg endpoint now job w
  defines "r \<equiv> AsyncWebhookRetries cfg"
    and "post \<equiv> Post (WebhookURL job) (webhookPayload job now)"
  shows "\<exists>evs. sendWebhook cfg endpoint now job w = (job, w\<lparr>outbox := outbox w @ evs\<rparr>)
      \<and> int (length (filter is_Post evs)) \<le> max 0 r
      \<and> (WebhookURL job = [] \<or> r < 1 \<longrightarrow> evs = [])
      \<and> (WebhookURL job \<noteq> [] \<and> 1 \<le> r
          \<longrightarrow> (\<exists>n. 1 \<le> n \<and> n \<le> r
                 \<and> (\<forall>a. 1 \<le> a \<and> a < n \<longrightarrow> attempt_failed (endpoint a))
                 \<and> (n < r \<longrightarrow> \<not> attempt_failed (endpoint n))
                 \<and> evs = concat (map (\<lambda>a. [post, Sleep (backoff a)]) [1..n - 1]) @ [post]))
      \<and> (WebhookURL job \<noteq> [] \<and> 1 \<le> r \<and> (\<forall>a. attempt_failed (endpoint a))
          \<longrightarrow> evs = concat (map (\<lambda>a. [post, Sleep (backoff a)]) [1..r - 1]) @ [post])
      \<and> (WebhookURL job \<noteq> [] \<and> r = 3 \<and> (\<forall>a. attempt_failed (endpoint a))
          \<longrightarrow> evs = [post, Sleep (backoff 1), post, Sleep (backoff 2), post])"
proof -
  from sendWebhook_run [of cfg endpoint now job w] obtain evs where
    run: "sendWebhook cfg endpoint now job w = (job, w\<lparr>outbox := outbox w @ evs\<rparr>)"
    and d: "evs = [] \<and> (WebhookURL job = [] \<or> r < 1)
         \<or> WebhookURL job \<noteq> [] \<and> 1 \<le> r
            \<and> evs = sendWebhook_loop endpoint r (WebhookURL job) (webhookPayload job now) 1"
    unfolding r_def by blast
  have cnt: "int (length (filter is_Post evs)) \<le> max 0 r"
    using d sendWebhook_loop_posts_le [of endpoint r "WebhookURL job" "webhookPayload job now" 1]
    by auto
  have none: "evs = []" if "WebhookURL job = [] \<or> r < 1"
    using d that by auto
  have shape: "\<exists>n. 1 \<le> n \<and> n \<le> r
                 \<and> (\<forall>a. 1 \<le> a \<and> a < n \<longrightarrow> attempt_failed (endpoint a))
                 \<and> (n < r \<longrightarrow> \<not> attempt_failed (endpoint n))
                 \<and> evs = concat (map (\<lambda>a. [post, Sleep (backoff a)]) [1..n - 1]) @ [post]"
    if "WebhookURL job \<noteq> [] \<and> 1 \<le> r"
  proof -
    from that d have "evs = sendWebhook_loop endpoint r (WebhookURL job)
        (webhookPayload job now) 1"
      by auto
    with sendWebhook_loop_shape [of 1 r endpoint "WebhookURL job" "webhookPayload job now"] that
    show ?thesis
      unfolding post_def by simp
  qed
  have all: "evs = concat (map (\<lambda>a. [post, Sleep (backoff a)]) [1..r - 1]) @ [post]"
    if "WebhookURL job \<noteq> [] \<and> 1 \<le> r \<and> (\<forall>a. attempt_failed (endpoint a))"
  proof -
    from shape that obtain n where n: "n \<le> r" "n < r \<longrightarrow> \<not> attempt_failed (endpoint n)"
      and e: "evs = concat (map (\<lambda>a. [post, Sleep (backoff a)]) [1..n - 1]) @ [post]"
      by blast
    from n that have "n = r"
      by auto
    with e show ?thesis
      by simp
  qed
  have three: "evs = [post, Sleep (backoff 1), post, Sleep (backoff 2), post]"
    if "WebhookURL job \<noteq> [] \<and> r = 3 \<and> (\<forall>a. attempt_failed (endpoint a))"
  proof -
    have "[1..2::int] = [1, 2]"
      by (simp add: upto.simps)
    with all that show ?thesis
      by simp
  qed
  from run cnt none shape all three show ?thesis
    by blast
qed

text \<open>
  Claim C9. \<open>sendWebhook\<close> hands the job back as it got it and changes nothing but the
  list of posts and sleeps: the job store (records, statuses, queue, active set) and the
  cache are as before, whatever the endpoint answers. What it adds to that list is
  nothing, for a job without webhook URL or a retry count below 1, and otherwise the
  sequence post, sleep, post, sleep, ..., post: \<open>n\<close> posts of the job's payload to the
  job's webhook URL, with the sleep \<open>backoff a\<close> between post \<open>a\<close> and post \<open>a + 1\<close>,
  where the first \<open>n - 1\<close> posts failed (a transport error or a status outside 200..299)
  and post \<open>n\<close> either succeeded or was the last one the retry count allows. So there
  are at most \<open>AsyncWebhookRetries\<close> posts, hence at most \<open>AsyncWebhookRetries + 1\<close>; and
  when every attempt fails there are exactly \<open>AsyncWebhookRetries\<close>, for the retry count 3
  the sequence post, sleep of \<open>backoff 1\<close>, post, sleep of \<open>backoff 2\<close>, post. The sleep
  \<open>backoff a\<close> is \<open>a\<close> times two seconds and grows strictly with \<open>a\<close> (as long as the
  64-bit count of nanoseconds does not wrap, which is up to \<open>a = 4611686018\<close>).

  Per job: a run of \<open>processJob\<close> that returns has called \<open>sendWebhook\<close> at most once,
  on the handle it returns, which has the job's identifier and webhook URL; so the run
  adds at most \<open>AsyncWebhookRetries\<close> posts, all of them of this job's payload to this
  job's URL. And in every state that the pool and the handlers reach from an empty job
  store by enqueueing under fresh identifiers, dequeueing and processing, cancelling and
  changing the cache, with any store command failing or not, each job identifier has at
  most \<open>AsyncWebhookRetries\<close> posts in all.
\<close>

theorem sendWebhook_bounded_retries:
  "(\<exists>evs. sendWebhook cfg endpoint now job w = (job, w\<lparr>outbox := outbox w @ evs\<rparr>)
      \<and> int (length (filter is_Post evs)) \<le> max 0 (AsyncWebhookRetries cfg)
      \<and> (0 \<le> AsyncWebhookRetries cfg
          \<longrightarrow> int (length (filter is_Post evs)) \<le> AsyncWebhookRetries cfg + 1)
      \<and> (WebhookURL job = [] \<or> AsyncWebhookRetries cfg < 1 \<longrightarrow> evs = [])
      \<and> (WebhookURL job \<noteq> [] \<and> 1 \<le> AsyncWebhookRetries cfg
          \<longrightarrow> (\<exists>n. 1 \<le> n \<and> n \<le> AsyncWebhookRetries cfg
                 \<and> (\<forall>a. 1 \<le> a \<and> a < n \<longrightarrow> attempt_failed (endpoint a))
                 \<and> (n < AsyncWebhookRetries cfg \<longrightarrow> \<not> attempt_failed (endpoint n))
                 \<and> evs = concat (map (\<lambda>a. [Post (WebhookURL job) (webhookPayload job now),
                                            Sleep (backoff a)]) [1..n - 1])
                         @ [Post (WebhookURL job) (webhookPayload job now)]))
      \<and> (WebhookURL job \<noteq> [] \<and> 1 \<le> AsyncWebhookRetries cfg
           \<and> (\<forall>a. attempt_failed (endpoint a))
          \<longrightarrow> evs = concat (map (\<lambda>a. [Post (WebhookURL job) (webhookPayload job now),
                                      Sleep (backoff a)]) [1..AsyncWebhookRetries cfg - 1])
                   @ [Post (WebhookURL job) (webhookPayload job now)])
      \<and> (WebhookURL job \<noteq> [] \<and> AsyncWebhookRetries cfg = 3
           \<and> (\<forall>a. attempt_failed (endpoint a))
          \<longrightarrow> evs = [Post (WebhookURL job) (webhookPayload job now), Sleep (backoff 1),
                     Post (WebhookURL job) (webhookPayload job now), Sleep (backoff 2),
                     Post (WebhookURL job) (webhookPayload job now)]))
   \<and> jobStore (snd (sendWebhook cfg endpoint now job w)) = jobStore w
   \<and> (1 \<le> a \<and> a < b \<and> b \<le> 4611686018
       \<longrightarrow> sint (backoff a) = a * sint (2 * Second) \<and> sint (2 * Second) = 2000000000
           \<and> sint (backoff a) < sint (backoff b))
   \<and> (processJob cfg parse digest env fuel r job w = Some (job', w')
       \<longrightarrow> ID job' = ID job \<and> WebhookURL job' = WebhookURL job
           \<and> (\<exists>w1. outbox w1 = outbox w
                 \<and> (w' = w1
                    \<or> sendWebhook cfg (run_endpoint r) (run_webhookAt r) job' w1 = (job', w')))
           \<and> (\<exists>evs. outbox w' = outbox w @ evs
                 \<and> set evs \<subseteq> insert (Post (WebhookURL job)
                                         (webhookPayload job' (run_webhookAt r))) (range Sleep)
                 \<and> int (length (filter is_Post evs)) \<le> max 0 (AsyncWebhookRetries cfg)))
   \<and> (pool_run cfg parse digest env ops (NewWorld cm) = Some w''
       \<longrightarrow> int (length (filter (is_Post_for jobID) (outbox w'')))
             \<le> max 0 (AsyncWebhookRetries cfg))"
proof (intro conjI impI)
  from sendWebhook_delivery [of cfg endpoint now job w] obtain evs where
    e: "sendWebhook cfg endpoint now job w = (job, w\<lparr>outbox := outbox w @ evs\<rparr>)
      \<and> int (length (filter is_Post evs)) \<le> max 0 (AsyncWebhookRetries cfg)
      \<and> (WebhookURL job = [] \<or> AsyncWebhookRetries cfg < 1 \<longrightarrow> evs = [])
      \<and> (WebhookURL job \<noteq> [] \<and> 1 \<le> AsyncWebhookRetries cfg
          \<longrightarrow> (\<exists>n. 1 \<le> n \<and> n \<le> AsyncWebhookRetries cfg
                 \<and> (\<forall>a. 1 \<le> a \<and> a < n \<longrightarrow> attempt_failed (endpoint a))
                 \<and> (n < AsyncWebhookRetries cfg \<longrightarrow> \<not> attempt_failed (endpoint n))
                 \<and> evs = concat (map (\<lambda>a. [Post (WebhookURL job) (webhookPayload job now),
                                            Sleep (backoff a)]) [1..n - 1])
                         @ [Post (WebhookURL job) (webhookPayload job now)]))
      \<and> (WebhookURL job \<noteq> [] \<and> 1 \<le> AsyncWebhookRetries cfg
           \<and> (\<forall>a. attempt_failed (endpoint a))
          \<longrightarrow> evs = concat (map (\<lambda>a. [Post (WebhookURL job) (webhookPayload job now),
                                      Sleep (backoff a)]) [1..AsyncWebhookRetries cfg - 1])
                   @ [Post (WebhookURL job) (webhookPayload job now)])
      \<and> (WebhookURL job \<noteq> [] \<and> AsyncWebhookRetries cfg = 3
           \<and> (\<forall>a. attempt_failed (endpoint a))
          \<longrightarrow> evs = [Post (WebhookURL job) (webhookPayload job now), Sleep (backoff 1),
                     Post (WebhookURL job) (webhookPayload job now), Sleep (backoff 2),
                     Post (WebhookURL job) (webhookPayload job now)])"
    by blast
  have "int (length (filter is_Post evs)) \<le> max 0 (AsyncWebhookRetries cfg)"
    by (rule conjunct1 [OF conjunct2 [OF e]])
  then have "0 \<le> AsyncWebhookRetries cfg
          \<longrightarrow> int (length (filter is_Post evs)) \<le> AsyncWebhookRetries cfg + 1"
    by linarith
  with e show "\<exists>evs. sendWebhook cfg endpoint now job w = (job, w\<lparr>outbox := outbox w @ evs\<rparr>)
      \<and> int (length (filter is_Post evs)) \<le> max 0 (AsyncWebhookRetries cfg)
      \<and> (0 \<le> AsyncWebhookRetries cfg
          \<longrightarrow> int (length (filter is_Post evs)) \<le> AsyncWebhookRetries cfg + 1)
      \<and> (WebhookURL job = [] \<or> AsyncWebhookRetries cfg < 1 \<longrightarrow> evs = [])
      \<and> (WebhookURL job \<noteq> [] \<and> 1 \<le> AsyncWebhookRetries cfg
          \<longrightarrow> (\<exists>n. 1 \<le> n \<and> n \<le> AsyncWebhookRetries cfg
                 \<and> (\<forall>a. 1 \<le> a \<and> a < n \<longrightarrow> attempt_failed (endpoint a))
                 \<and> (n < AsyncWebhookRetries cfg \<longrightarrow> \<not> attempt_failed (endpoint n))
                 \<and> evs = concat (map (\<lambda>a. [Post (WebhookURL job) (webhookPayload job now),
                                            Sleep (backoff a)]) [1..n - 1])
                         @ [Post (WebhookURL job) (webhookPayload job now)]))
      \<and> (WebhookURL job \<noteq> [] \<and> 1 \<le> AsyncWebhookRetries cfg
           \<and> (\<forall>a. attempt_failed (endpoint a))
          \<longrightarrow> evs = concat (map (\<lambda>a. [Post (WebhookURL job) (webhookPayload job now),
                                      Sleep (backoff a)]) [1..AsyncWebhookRetries cfg - 1])
                   @ [Post (WebhookURL job) (webhookPayload job now)])
      \<and> (WebhookURL job \<noteq> [] \<and> AsyncWebhookRetries cfg = 3
           \<and> (\<forall>a. attempt_failed (endpoint a))
          \<longrightarrow> evs = [Post (WebhookURL job) (webhookPayload job now), Sleep (backoff 1),
                     Post (WebhookURL job) (webhookPayload job now), Sleep (backoff 2),
                     Post (WebhookURL job) (webhookPayload job now)])"
    by (intro exI [of _ evs]) (elim conjE, intro conjI)
next
  show "jobStore (snd (sendWebhook cfg endpoint now job w)) = jobStore w"
    by (rule sendWebhook_store)
next
  have s: "sint (2 * Second :: 64 word) = 2000000000"
    using sint_backoff [of 1] by (simp add: backoff_def)
  then show "sint (2 * Second) = 2000000000" .
  assume ab: "1 \<le> a \<and> a < b \<and> b \<le> 4611686018"
  with backoff_linear [of a b] s show "sint (backoff a) = a * sint (2 * Second)"
    by simp
  from ab backoff_linear [of a b] show "sint (backoff a) < sint (backoff b)"
    by simp
next
  assume p: "processJob cfg parse digest env fuel r job w = Some (job', w')"
  from processJob_effect [OF p] show "ID job' = ID job" "WebhookURL job' = WebhookURL job"
    "\<exists>w1. outbox w1 = outbox w
         \<and> (w' = w1
            \<or> sendWebhook cfg (run_endpoint r) (run_webhookAt r) job' w1 = (job', w'))"
    by blast+
  from processJob_posts [OF p]
  show "\<exists>evs. outbox w' = outbox w @ evs
         \<and> set evs \<subseteq> insert (Post (WebhookURL job)
                                 (webhookPayload job' (run_webhookAt r))) (range Sleep)
         \<and> int (length (filter is_Post evs)) \<le> max 0 (AsyncWebhookRetries cfg)" .
next
  assume "pool_run cfg parse digest env ops (NewWorld cm) = Some w''"
  with pool_inv_NewWorld have "pool_inv cfg w''"
    by (rule pool_inv_run)
  then show "int (length (filter (is_Post_for jobID) (outbox w'')))
             \<le> max 0 (AsyncWebhookRetries cfg)"
    unfolding pool_inv_def by blast
qed

lemma example_pool_run:
  "pool_run example_config url_Parse plain_digest (web_env []) example_ops
     (NewWorld example_cache)
   = Some (snd (sendWebhook example_config always_500 40 example_done
       \<lparr>jobStore = snd (snd (CompleteJob no_faults 30 example_handle [] 0 ''1s'' example_processing)),
        resultCache = snd (Set url_Parse plain_digest False 25 example_url [] 3 0 example_cache),
        outbox = []\<rparr>))"
proof -
  have e: "pool_step example_config url_Parse plain_digest (web_env [])
      (PoolEnqueue no_faults ''job-1'' 10 example_request) (NewWorld example_cache)
      = Some \<lparr>jobStore = example_queued, resultCache = example_cache, outbox = []\<rparr>"
    by (simp add: NewWorld_def example_queued_def NewQueue_def)
  have i: "ID example_job = ''job-1''"
    by (simp add: example_job_def)
  have d: "Dequeue no_faults 20 example_queued = (Inr (Some example_handle), example_processing)"
    by (simp add: Dequeue_no_faults example_queued_eq example_processing_eq example_handle_def i)
  obtain j w where s: "sendWebhook example_config always_500 40 example_done
       \<lparr>jobStore = snd (snd (CompleteJob no_faults 30 example_handle [] 0 ''1s'' example_processing)),
        resultCache = snd (Set url_Parse plain_digest False 25 example_url [] 3 0 example_cache),
        outbox = []\<rparr> = (j, w)"
    by (metis surj_pair)
  have "pool_step example_config url_Parse plain_digest (web_env [])
      (PoolWork no_faults 20 1 example_run)
      \<lparr>jobStore = example_queued, resultCache = example_cache, outbox = []\<rparr> = Some w"
    using s by (simp add: d example_processJob)
  with e s show ?thesis
    by (simp add: example_ops_def)
qed

theorem sendWebhook_bounded_retries_witness:
  "WebhookURL example_completed = ''https://hook.example/cb''
   \<and> AsyncWebhookRetries example_config = 3
   \<and> attempt_failed (always_500 1) \<and> attempt_failed (always_500 2)
   \<and> attempt_failed (always_500 3)
   \<and> sendWebhook example_config always_500 50 example_completed example_world
       = (example_completed,
          example_world\<lparr>outbox := example_delivery example_completed 50\<rparr>)
   \<and> example_delivery example_completed 50
       = [Post ''https://hook.example/cb'' (webhookPayload example_completed 50),
          Sleep (backoff 1),
          Post ''https://hook.example/cb'' (webhookPayload example_completed 50),
          Sleep (backoff 2),
          Post ''https://hook.example/cb'' (webhookPayload example_completed 50)]
   \<and> sint (backoff 1) = 2000000000 \<and> sint (backoff 2) = 4000000000
   \<and> map_option (\<lambda>p. (fst p, outbox (snd p)))
        (processJob example_config url_Parse plain_digest (web_env []) 1 example_run
           example_handle
           \<lparr>jobStore = example_processing, resultCache = example_cache, outbox = []\<rparr>)
       = Some (example_done, example_delivery example_done 40)
   \<and> map_option outbox
        (pool_run example_config url_Parse plain_digest (web_env []) example_ops
           (NewWorld example_cache))
       = Some (example_delivery example_done 40)
   \<and> length (filter (is_Post_for ''job-1'') (example_delivery example_done 40)) = 3"
proof -
  have u: "WebhookURL example_completed = ''https://hook.example/cb''"
    "WebhookURL example_done = ''https://hook.example/cb''"
    by (simp_all add: example_completed_def example_done_def example_job_def)
  have r: "AsyncWebhookRetries example_config = 3"
    by (simp add: example_config_def)
  have a: "\<forall>a. attempt_failed (always_500 a)"
    by (simp add: always_500_def)
  have o: "outbox example_world = []"
    by (simp add: example_world_def)
  have del: "example_delivery job now
       = [Post ''https://hook.example/cb'' (webhookPayload job now), Sleep (backoff 1),
          Post ''https://hook.example/cb'' (webhookPayload job now), Sleep (backoff 2),
          Post ''https://hook.example/cb'' (webhookPayload job now)]" for job now
    by (simp add: example_delivery_def example_post_def)
  note t1 = sendWebhook_bounded_retries [where cfg = example_config and endpoint = always_500
      and now = 50 and job = example_completed and w = example_world and a = 1 and b = 2]
  from t1 [THEN conjunct1] u(1) r a o
  have one: "sendWebhook example_config always_500 50 example_completed example_world
       = (example_completed,
          example_world\<lparr>outbox := example_delivery example_completed 50\<rparr>)"
    by (auto simp: del)
  from t1 [THEN conjunct2, THEN conjunct2, THEN conjunct1]
  have b1: "sint (backoff 1) = 2000000000"
    by simp
  let ?w1 = "\<lparr>jobStore = snd (snd (CompleteJob no_faults 30 example_handle [] 0 ''1s''
                  example_processing)),
        resultCache = snd (Set url_Parse plain_digest False 25 example_url [] 3 0 example_cache),
        outbox = []\<rparr>"
  let ?w2 = "\<lparr>jobStore = snd (snd (CompleteJob no_faults 30 example_handle [] 0 ''1s''
                  example_processing)),
        resultCache = snd (Set url_Parse plain_digest False 25 example_url [] 3 0 example_cache),
        outbox = example_delivery example_done 40\<rparr>"
  note t2 = sendWebhook_bounded_retries [where cfg = example_config and endpoint = always_500
      and now = 40 and job = example_done and w = ?w1 and a = 2 and b = 3
      and parse = url_Parse and digest = plain_digest and env = "web_env []"
      and ops = example_ops and cm = example_cache and jobID = "''job-1''" and w'' = ?w2]
  from t2 [THEN conjunct1] u(2) r a
  have two: "sendWebhook example_config always_500 40 example_done ?w1
       = (example_done, ?w1\<lparr>outbox := example_delivery example_done 40\<rparr>)"
    by (auto simp: del)
  from t2 [THEN conjunct2, THEN conjunct2, THEN conjunct1]
  have b2: "sint (backoff 2) = 4000000000"
    by simp
  have pj: "map_option (\<lambda>p. (fst p, outbox (snd p)))
        (processJob example_config url_Parse plain_digest (web_env []) 1 example_run
           example_handle
           \<lparr>jobStore = example_processing, resultCache = example_cache, outbox = []\<rparr>)
       = Some (example_done, example_delivery example_done 40)"
    by (simp add: example_processJob two)
  have pr: "pool_run example_config url_Parse plain_digest (web_env []) example_ops
      (NewWorld example_cache) = Some ?w2"
    by (simp add: example_pool_run two)
  from t2 [THEN conjunct2, THEN conjunct2, THEN conjunct2, THEN conjunct2] pr r
  have le: "int (length (filter (is_Post_for ''job-1'') (example_delivery example_done 40))) \<le> 3"
    by simp
  have i: "payload_JobID (webhookPayload example_done 40) = ''job-1''"
    by (simp add: webhookPayload_def example_done_def example_job_def)
  have n: "length (filter (is_Post_for ''job-1'') (example_delivery example_done 40)) = 3"
    by (simp add: example_delivery_def example_post_def i)
  from pr have po: "map_option outbox
        (pool_run example_config url_Parse plain_digest (web_env []) example_ops
           (NewWorld example_cache))
       = Some (example_delivery example_done 40)"
    by simp
  from u(1) r a one del [of example_completed 50] b1 b2 pj po n show ?thesis
    by (intro conjI) simp_all
qed

end
